theory Spec2Isabelle
  imports Main
begin

section \<open>Storage layer: \<^verbatim>\<open>src/storage/sqlite_db.py\<close>\<close>

text \<open>
  Timestamps (\<^verbatim>\<open>datetime.utcnow()\<close>) are readings of an external clock; every function
  that reads the clock takes the reading as an argument. Python strings are modelled as
  \<^typ>\<open>string\<close>, Python integers as \<^typ>\<open>int\<close>, row identities (SQLite rowids) as
  \<^typ>\<open>nat\<close>.
\<close>

type_synonym timestamp = nat

text \<open>The metadata dictionary built by \<^verbatim>\<open>_build_meta\<close>: always the same nine keys.\<close>

record meta =
  meta_source :: string
  meta_title :: string
  meta_url :: string
  meta_local_path :: string
  meta_filename :: string
  meta_filesize_bytes :: nat
  meta_checksum :: string
  meta_mime_type :: string
  meta_downloaded_at :: timestamp

text \<open>A row of the table \<^verbatim>\<open>documents\<close> (class \<^verbatim>\<open>Document\<close>).\<close>

record document =
  doc_id :: nat
  source :: string
  title :: string
  url :: string
  filename :: string
  local_path :: string
  filesize_bytes :: nat
  mime_type :: string
  checksum :: string
  version :: int
  previous_version_id :: "nat option"
  first_seen_at :: timestamp
  last_seen_at :: timestamp
  downloaded_at :: timestamp

text \<open>
  The table is the list of its rows in insertion order. The primary key is an
  \<^verbatim>\<open>INTEGER PRIMARY KEY\<close> without \<^verbatim>\<open>AUTOINCREMENT\<close>: SQLite gives a new row the
  largest rowid in the table plus one, and 1 in an empty table.
\<close>

definition next_id :: "document list \<Rightarrow> nat" where
  "next_id rows = Suc (foldr max (map doc_id rows) 0)"

text \<open>
  \<^verbatim>\<open>session.query(Document).filter(Document.url == u).order_by(Document.version.desc()).all()\<close>:
  the rows of the URL, highest version first (rows of equal version stay in rowid order).
\<close>

definition existing_docs :: "document list \<Rightarrow> string \<Rightarrow> document list" where
  "existing_docs rows u = sort_key (\<lambda>d. - version d) (filter (\<lambda>d. url d = u) rows)"

text \<open>\<^verbatim>\<open>latest.last_seen_at = now; session.commit()\<close>: an update by primary key.\<close>

definition touch :: "nat \<Rightarrow> timestamp \<Rightarrow> document \<Rightarrow> document" where
  "touch i now d = (if doc_id d = i then d\<lparr>last_seen_at := now\<rparr> else d)"

definition new_document :: "nat \<Rightarrow> meta \<Rightarrow> int \<Rightarrow> nat option \<Rightarrow> timestamp \<Rightarrow> document" where
  "new_document i m v prev now =
     \<lparr>doc_id = i, source = meta_source m, title = meta_title m, url = meta_url m,
      filename = meta_filename m, local_path = meta_local_path m,
      filesize_bytes = meta_filesize_bytes m, mime_type = meta_mime_type m,
      checksum = meta_checksum m, version = v, previous_version_id = prev,
      first_seen_at = now, last_seen_at = now, downloaded_at = meta_downloaded_at m\<rparr>"

text \<open>
  \<^verbatim>\<open>upsert_document(meta)\<close>, with the clock reading \<open>now\<close> and the table passed
  explicitly; the result is the table after the commit and the returned row.
\<close>

definition upsert_document :: "timestamp \<Rightarrow> document list \<Rightarrow> meta \<Rightarrow> document list \<times> document" where
  "upsert_document now rows m =
     (case existing_docs rows (meta_url m) of
        [] \<Rightarrow>
          (let doc = new_document (next_id rows) m 1 None now
           in (rows @ [doc], doc))
      | latest # _ \<Rightarrow>
          if checksum latest = meta_checksum m
          then (map (touch (doc_id latest) now) rows, latest\<lparr>last_seen_at := now\<rparr>)
          else
            (let doc = new_document (next_id rows) m (version latest + 1)
                         (Some (doc_id latest)) now
             in (rows @ [doc], doc)))"

text \<open>A sequence of calls, each with its own clock reading.\<close>

fun upsert_all :: "document list \<Rightarrow> (timestamp \<times> meta) list \<Rightarrow> document list" where
  "upsert_all rows [] = rows"
| "upsert_all rows ((now, m) # ms) = upsert_all (fst (upsert_document now rows m)) ms"

text \<open>
  Specification vocabulary for the version lineage of one URL. \<open>is_latest rows u l\<close>:
  \<open>l\<close> is a stored row of URL \<open>u\<close> whose version no other row of \<open>u\<close> exceeds.
  \<open>lineage rs\<close>: the rows \<open>rs\<close> carry the versions 1, 2, ... in order, every row but
  the first names the row before it as its predecessor, and identities increase.
\<close>

definition is_latest :: "document list \<Rightarrow> string \<Rightarrow> document \<Rightarrow> bool" where
  "is_latest rows u l \<longleftrightarrow>
     l \<in> set rows \<and> url l = u \<and> (\<forall>d\<in>set rows. url d = u \<longrightarrow> version d \<le> version l)"

definition lineage :: "document list \<Rightarrow> bool" where
  "lineage rs \<longleftrightarrow>
     map version rs = map int [1..<Suc (length rs)]
     \<and> (\<forall>i<length rs. previous_version_id (rs ! i)
            = (if i = 0 then None else Some (doc_id (rs ! (i - 1)))))
     \<and> sorted_wrt (<) (map doc_id rs)"

text \<open>A metadata record used for the concrete instances below.\<close>

definition sample_meta :: "string \<Rightarrow> string \<Rightarrow> meta" where
  "sample_meta u c =
     \<lparr>meta_source = ''BCL_AnaCredit'', meta_title = ''Instructions'', meta_url = u,
      meta_local_path = ''data/raw/f.pdf'', meta_filename = ''f.pdf'',
      meta_filesize_bytes = 3, meta_checksum = c, meta_mime_type = ''application/pdf'',
      meta_downloaded_at = 7\<rparr>"

section \<open>Strings, paths and the file system\<close>

text \<open>
  A \<^typ>\<open>char\<close> is one code point below 256 (Latin-1), a byte string is a list of bytes.
  The string methods are those of Python's \<^verbatim>\<open>str\<close> restricted to that range.
\<close>

type_synonym bytes = "char list"

text \<open>\<^verbatim>\<open>str.lower()\<close>: A-Z and the upper-case letters 0xC0-0xDE (without 0xD7).\<close>

definition lower_char :: "char \<Rightarrow> char" where
  "lower_char c =
     (let n = (of_char c :: nat)
      in if (65 \<le> n \<and> n \<le> 90) \<or> (192 \<le> n \<and> n \<le> 222 \<and> n \<noteq> 215)
         then char_of (n + 32) else c)"

definition lower :: "string \<Rightarrow> string" where
  "lower s = map lower_char s"

text \<open>\<^verbatim>\<open>str.isspace()\<close> on one character, and \<^verbatim>\<open>str.strip()\<close> without argument.\<close>

definition isspace :: "char \<Rightarrow> bool" where
  "isspace c =
     (let n = (of_char c :: nat)
      in (9 \<le> n \<and> n \<le> 13) \<or> (28 \<le> n \<and> n \<le> 32) \<or> n = 133 \<or> n = 160)"

definition strip :: "string \<Rightarrow> string" where
  "strip s = rev (dropWhile isspace (rev (dropWhile isspace s)))"

text \<open>\<^verbatim>\<open>s.split(c)\<close> for a one-character separator, and \<^verbatim>\<open>sep.join(xs)\<close>.\<close>

fun split_on :: "char \<Rightarrow> string \<Rightarrow> string list" where
  "split_on c [] = [[]]"
| "split_on c (x # xs) =
     (if x = c then [] # split_on c xs
      else (case split_on c xs of
              [] \<Rightarrow> [[x]]
            | w # ws \<Rightarrow> (x # w) # ws))"

fun join_with :: "string \<Rightarrow> string list \<Rightarrow> string" where
  "join_with sep [] = []"
| "join_with sep [x] = x"
| "join_with sep (x # y # ys) = x @ sep @ join_with sep (y # ys)"

text \<open>\<^verbatim>\<open>s.rfind(c)\<close>: the index of the last occurrence, \<open>None\<close> for Python's -1.\<close>

definition rfind :: "char \<Rightarrow> string \<Rightarrow> nat option" where
  "rfind c s =
     (if c \<in> set s then Some (length s - 1 - length (takeWhile (\<lambda>x. x \<noteq> c) (rev s)))
      else None)"

text \<open>
  \<^verbatim>\<open>pathlib\<close> on POSIX. A path object is kept as the string it was built from;
  \<open>path_parts\<close> is its parsed form (root and components, empty and \<^verbatim>\<open>.\<close> components
  dropped), from which \<^verbatim>\<open>name\<close>, \<^verbatim>\<open>suffix\<close>, \<^verbatim>\<open>stem\<close> and \<^verbatim>\<open>str()\<close> are read.
\<close>

definition splitroot :: "string \<Rightarrow> string \<times> string" where
  "splitroot p =
     (if take 1 p \<noteq> ''/'' then ([], p)
      else if take 1 (drop 1 p) \<noteq> ''/'' \<or> take 1 (drop 2 p) = ''/'' then (''/'', drop 1 p)
      else (''//'', drop 2 p))"

definition path_parts :: "string \<Rightarrow> string \<times> string list" where
  "path_parts p =
     (case splitroot p of
        (root, rel) \<Rightarrow> (root, filter (\<lambda>x. x \<noteq> [] \<and> x \<noteq> ''.'') (split_on CHR ''/'' rel)))"

definition path_name :: "string \<Rightarrow> string" where
  "path_name p = (case snd (path_parts p) of [] \<Rightarrow> [] | t # ts \<Rightarrow> last (t # ts))"

definition name_suffix :: "string \<Rightarrow> string" where
  "name_suffix name =
     (case rfind CHR ''.'' name of
        None \<Rightarrow> []
      | Some i \<Rightarrow> if 0 < i \<and> Suc i < length name then drop i name else [])"

definition name_stem :: "string \<Rightarrow> string" where
  "name_stem name =
     (case rfind CHR ''.'' name of
        None \<Rightarrow> name
      | Some i \<Rightarrow> if 0 < i \<and> Suc i < length name then take i name else name)"

definition path_suffix :: "string \<Rightarrow> string" where
  "path_suffix p = name_suffix (path_name p)"

definition path_stem :: "string \<Rightarrow> string" where
  "path_stem p = name_stem (path_name p)"

definition path_str :: "string \<Rightarrow> string" where
  "path_str p =
     (case path_parts p of
        (root, parts) \<Rightarrow>
          (let s = root @ join_with ''/'' parts in if s = [] then ''.'' else s))"

text \<open>\<^verbatim>\<open>os.path.join(a, b)\<close> (also the operator \<^verbatim>\<open>/\<close> of a path) and \<^verbatim>\<open>os.path.basename\<close>.\<close>

definition os_path_join :: "string \<Rightarrow> string \<Rightarrow> string" where
  "os_path_join a b =
     (if take 1 b = ''/'' then b
      else if a = [] \<or> last a = CHR ''/'' then a @ b
      else a @ ''/'' @ b)"

definition os_path_basename :: "string \<Rightarrow> string" where
  "os_path_basename p = rev (takeWhile (\<lambda>x. x \<noteq> CHR ''/'') (rev p))"

text \<open>
  The file system holds regular files only, under their normalised paths (repeated
  slashes and \<^verbatim>\<open>.\<close> components do not distinguish files); \<^verbatim>\<open>open(p, "wb").write(b)\<close>
  replaces the content. Directories (\<^verbatim>\<open>ensure_dir\<close>) are always creatable and not kept.
\<close>

type_synonym filesystem = "string \<rightharpoonup> bytes"

definition write_file :: "filesystem \<Rightarrow> string \<Rightarrow> bytes \<Rightarrow> filesystem" where
  "write_file fs p b = fs(path_str p \<mapsto> b)"

definition read_file :: "filesystem \<Rightarrow> string \<Rightarrow> bytes option" where
  "read_file fs p = fs (path_str p)"

section \<open>Extraction agent: \<^verbatim>\<open>src/agents/extraction_agent.py\<close>\<close>

text \<open>Exceptions are values; a function that can raise returns \<open>error + result\<close>.\<close>

datatype error =
    ValueError string
  | RequestError
  | BadZipFile
  | FileNotFoundError string
  | ExtractorError
  | TranslationError
  | AttributeError

text \<open>
  One entry of \<^verbatim>\<open>zf.infolist()\<close> together with what \<^verbatim>\<open>zf.read(member)\<close> gives for it
  (the bytes, or the exception of a damaged or encrypted member).
\<close>

record zip_member =
  member_filename :: string
  member_data :: "error + bytes"

type_synonym headers = "string \<rightharpoonup> string"

record link =
  link_url :: string
  link_title :: string

text \<open>
  What the extraction agent takes from outside the repository: \<^verbatim>\<open>hashlib\<close>, \<^verbatim>\<open>zipfile\<close>,
  \<^verbatim>\<open>urlparse(url).path\<close>, the links scraped from an authority's listing page, the HTTP
  response to the \<open>i\<close>-th download of a run, and the clock read after it.
\<close>

record env =
  sha256_hex :: "bytes \<Rightarrow> string"
  zip_infolist :: "bytes \<Rightarrow> error + zip_member list"
  urlparse_path :: "string \<Rightarrow> string"
  scraped_links :: "string \<Rightarrow> error + link list"
  http_get :: "nat \<Rightarrow> string \<Rightarrow> error + bytes \<times> headers"
  utcnow :: "nat \<Rightarrow> timestamp"

record authority =
  authority_name :: string
  source_label :: string
  base_url :: string
  listing_url :: string

definition AUTHORITY_CONFIG :: "string \<rightharpoonup> authority" where
  "AUTHORITY_CONFIG =
     [''BCL'' \<mapsto>
        \<lparr>authority_name = ''Banque centrale du Luxembourg'',
         source_label = ''BCL_AnaCredit'',
         base_url = ''https://www.bcl.lu'',
         listing_url = ''https://www.bcl.lu/en/Regulatory-reporting/Etablissements_credit/AnaCredit/Instructions/index.html''\<rparr>,
      ''ECB'' \<mapsto>
        \<lparr>authority_name = ''European Central Bank'',
         source_label = ''ECB_AnaCredit'',
         base_url = ''https://www.ecb.europa.eu'',
         listing_url = ''https://www.ecb.europa.eu/stats/money_credit_banking/anacredit/html/index.en.html''\<rparr>]"

definition SUPPORTED_EXTENSIONS :: "string list" where
  "SUPPORTED_EXTENSIONS = [''.pdf'', ''.zip'', ''.xls'', ''.xlsx'', ''.csv'']"

definition get_file_checksum :: "env \<Rightarrow> bytes \<Rightarrow> string" where
  "get_file_checksum E content = sha256_hex E content"

text \<open>
  \<^verbatim>\<open>extract_document_links\<close>: the check of the authority code is the repository's, the
  scraping of the page is the environment's.
\<close>

definition extract_document_links :: "env \<Rightarrow> string \<Rightarrow> error + link list" where
  "extract_document_links E authority_code =
     (case AUTHORITY_CONFIG authority_code of
        None \<Rightarrow> Inl (ValueError (''Unknown authority: '' @ authority_code))
      | Some cfg \<Rightarrow> scraped_links E authority_code)"

definition guess_mime_type_from_ext :: "string \<Rightarrow> string" where
  "guess_mime_type_from_ext ext0 =
     (let ext = lower ext0
      in if ext = ''.pdf'' then ''application/pdf''
         else if ext \<in> set [''.xls'', ''.xlsx''] then ''application/vnd.ms-excel''
         else if ext = ''.csv'' then ''text/csv''
         else if ext = ''.zip'' then ''application/zip''
         else ''application/octet-stream'')"

text \<open>\<^verbatim>\<open>_download_binary\<close>: the \<open>i\<close>-th request of the run; a failed request raises.\<close>

definition download_binary :: "env \<Rightarrow> nat \<Rightarrow> string \<Rightarrow> error + bytes \<times> headers" where
  "download_binary E i u = http_get E i u"

text \<open>
  \<^verbatim>\<open>_build_meta\<close>. \<^verbatim>\<open>headers.get("Content-Type") or guess\<close> takes the guess when the
  header is missing or empty.
\<close>

definition build_meta ::
  "env \<Rightarrow> string \<Rightarrow> string \<Rightarrow> string \<Rightarrow> string \<Rightarrow> string \<Rightarrow> bytes \<Rightarrow> headers \<Rightarrow> timestamp \<Rightarrow> meta" where
  "build_meta E src ttl u lpath fname content hdrs dl_at =
     \<lparr>meta_source = src, meta_title = ttl, meta_url = u, meta_local_path = lpath,
      meta_filename = fname, meta_filesize_bytes = length content,
      meta_checksum = get_file_checksum E content,
      meta_mime_type =
        (case hdrs ''Content-Type'' of
           None \<Rightarrow> guess_mime_type_from_ext (path_suffix fname)
         | Some v \<Rightarrow> if v \<noteq> [] then v else guess_mime_type_from_ext (path_suffix fname)),
      meta_downloaded_at = dl_at\<rparr>"

text \<open>\<^verbatim>\<open>ZipInfo.is_dir()\<close>: the entry's name ends with a slash.\<close>

definition is_dir :: "zip_member \<Rightarrow> bool" where
  "is_dir member \<longleftrightarrow> member_filename member \<noteq> [] \<and> last (member_filename member) = CHR ''/''"

text \<open>
  The loop of \<^verbatim>\<open>_handle_zip\<close> over \<^verbatim>\<open>zf.infolist()\<close>, with the file system and the list
  \<^verbatim>\<open>metas\<close> threaded through; an unreadable retained member raises out of the loop.
\<close>

fun handle_zip_members ::
  "env \<Rightarrow> meta \<Rightarrow> string \<Rightarrow> zip_member list \<Rightarrow> filesystem \<Rightarrow> meta list
     \<Rightarrow> filesystem \<times> (error + meta list)" where
  "handle_zip_members E meta_zip unzip_dir [] fs metas = (fs, Inr metas)"
| "handle_zip_members E meta_zip unzip_dir (member # members) fs metas =
     (if is_dir member then handle_zip_members E meta_zip unzip_dir members fs metas
      else
        let inner_name = path_name (member_filename member);
            ext = lower (path_suffix inner_name)
        in if ext \<notin> set SUPPORTED_EXTENSIONS
           then handle_zip_members E meta_zip unzip_dir members fs metas
           else
             (case member_data member of
                Inl e \<Rightarrow> (fs, Inl e)
              | Inr inner_bytes \<Rightarrow>
                  let inner_local_path = os_path_join unzip_dir inner_name;
                      fs' = write_file fs inner_local_path inner_bytes;
                      inner_url = meta_url meta_zip @ ''#'' @ member_filename member;
                      inner_meta =
                        build_meta E (meta_source meta_zip)
                          (meta_title meta_zip @ '' - '' @ inner_name)
                          inner_url (path_str inner_local_path) inner_name inner_bytes
                          [''Content-Type'' \<mapsto> guess_mime_type_from_ext ext]
                          (meta_downloaded_at meta_zip)
                  in handle_zip_members E meta_zip unzip_dir members fs' (metas @ [inner_meta])))"

definition handle_zip ::
  "env \<Rightarrow> meta \<Rightarrow> bytes \<Rightarrow> string \<Rightarrow> filesystem \<Rightarrow> filesystem \<times> (error + meta list)" where
  "handle_zip E meta_zip zip_content download_dir fs =
     (let zip_stem = path_stem (meta_local_path meta_zip);
          unzip_dir = os_path_join download_dir (''unzipped_'' @ zip_stem)
      in case zip_infolist E zip_content of
           Inl e \<Rightarrow> (fs, Inl e)
         | Inr members \<Rightarrow> handle_zip_members E meta_zip unzip_dir members fs [])"

text \<open>
  The body of the loop of \<^verbatim>\<open>download_and_collect_metadata\<close> for the \<open>i\<close>-th link: the
  records it appends to \<^verbatim>\<open>all_meta\<close> (the file's own, then an archive's members), or
  the exception that leaves the function.
\<close>

definition download_one ::
  "env \<Rightarrow> string \<Rightarrow> string \<Rightarrow> nat \<Rightarrow> link \<Rightarrow> filesystem \<Rightarrow> filesystem \<times> (error + meta list)" where
  "download_one E src download_dir i doc fs =
     (case download_binary E i (link_url doc) of
        Inl e \<Rightarrow> (fs, Inl e)
      | Inr (content, hdrs) \<Rightarrow>
          let downloaded = utcnow E i;
              fname = os_path_basename (urlparse_path E (link_url doc));
              ext = lower (path_suffix fname);
              lpath = os_path_join download_dir fname;
              fs1 = write_file fs lpath content;
              m = build_meta E src (link_title doc) (link_url doc) lpath fname content hdrs
                    downloaded
          in if ext = ''.zip''
             then (case handle_zip E m content download_dir fs1 of
                     (fs2, Inl e) \<Rightarrow> (fs2, Inl e)
                   | (fs2, Inr inner_metas) \<Rightarrow> (fs2, Inr (m # inner_metas)))
             else (fs1, Inr [m]))"

fun collect_metadata ::
  "env \<Rightarrow> string \<Rightarrow> string \<Rightarrow> nat \<Rightarrow> link list \<Rightarrow> filesystem \<Rightarrow> meta list
     \<Rightarrow> filesystem \<times> (error + meta list)" where
  "collect_metadata E src download_dir i [] fs all_meta = (fs, Inr all_meta)"
| "collect_metadata E src download_dir i (doc # docs) fs all_meta =
     (case download_one E src download_dir i doc fs of
        (fs', Inl e) \<Rightarrow> (fs', Inl e)
      | (fs', Inr ms) \<Rightarrow> collect_metadata E src download_dir (Suc i) docs fs' (all_meta @ ms))"

definition download_and_collect_metadata ::
  "env \<Rightarrow> string \<Rightarrow> string \<Rightarrow> filesystem \<Rightarrow> filesystem \<times> (error + meta list)" where
  "download_and_collect_metadata E authority_code download_dir fs =
     (case AUTHORITY_CONFIG authority_code of
        None \<Rightarrow> (fs, Inl (ValueError (''Unknown authority: '' @ authority_code)))
      | Some cfg \<Rightarrow>
          (case extract_document_links E authority_code of
             Inl e \<Rightarrow> (fs, Inl e)
           | Inr docs \<Rightarrow> collect_metadata E (source_label cfg) download_dir 0 docs fs []))"

definition run_extraction ::
  "env \<Rightarrow> string \<Rightarrow> string \<Rightarrow> filesystem \<Rightarrow> filesystem \<times> (error + meta list)" where
  "run_extraction E authority_code download_dir fs =
     download_and_collect_metadata E authority_code download_dir fs"

text \<open>
  A concrete environment: a listing with a CSV file, an archive and a PDF file; the
  archive holds a PDF, a nested archive, a directory entry, a Word document and a second
  PDF of the same base name in a subdirectory. The digest is a stand-in that is injective.
\<close>

definition sample_members :: "zip_member list" where
  "sample_members =
     [\<lparr>member_filename = ''a/report.pdf'', member_data = Inr ''first''\<rparr>,
      \<lparr>member_filename = ''inner.zip'', member_data = Inr ''PK-inner''\<rparr>,
      \<lparr>member_filename = ''b/'', member_data = Inr []\<rparr>,
      \<lparr>member_filename = ''notes.docx'', member_data = Inr ''word''\<rparr>,
      \<lparr>member_filename = ''b/report.pdf'', member_data = Inr ''second''\<rparr>]"

definition sample_env :: "bool \<Rightarrow> env" where
  "sample_env zip_fetch_ok =
     \<lparr>sha256_hex = (\<lambda>b. ''sha256:'' @ b),
      zip_infolist = (\<lambda>b. if b = ''PK-outer'' then Inr sample_members else Inl BadZipFile),
      urlparse_path = (\<lambda>u. drop 9 u),
      scraped_links =
        (\<lambda>c. Inr [\<lparr>link_url = ''https://h/d/table.csv'', link_title = ''Table''\<rparr>,
                  \<lparr>link_url = ''https://h/d/pack.zip'', link_title = ''Pack''\<rparr>,
                  \<lparr>link_url = ''https://h/d/guide.pdf'', link_title = ''Guide''\<rparr>]),
      http_get =
        (\<lambda>i u. if u = ''https://h/d/table.csv'' then Inr (''a,b'', Map.empty)
               else if u = ''https://h/d/pack.zip'' \<and> zip_fetch_ok
                 then Inr (''PK-outer'', [''Content-Type'' \<mapsto> ''application/zip''])
               else if u = ''https://h/d/guide.pdf'' then Inr (''%PDF'', Map.empty)
               else Inl RequestError),
      utcnow = (\<lambda>i. 100 + i)\<rparr>"

text \<open>
  Vocabulary for the statements about archive expansion. \<open>retained\<close>: the entry passes
  both filters of the loop. \<open>member_meta\<close>: the record the loop builds for a retained,
  readable entry. \<open>stage_member\<close>: the write of its bytes to the staging path.
\<close>

definition retained :: "zip_member \<Rightarrow> bool" where
  "retained member \<longleftrightarrow>
     \<not> is_dir member
     \<and> lower (path_suffix (path_name (member_filename member))) \<in> set SUPPORTED_EXTENSIONS"

definition readable :: "zip_member \<Rightarrow> bool" where
  "readable member = (case member_data member of Inl e \<Rightarrow> False | Inr b \<Rightarrow> True)"

definition member_bytes :: "zip_member \<Rightarrow> bytes" where
  "member_bytes member = (case member_data member of Inl e \<Rightarrow> [] | Inr b \<Rightarrow> b)"

definition staging_path :: "string \<Rightarrow> zip_member \<Rightarrow> string" where
  "staging_path unzip_dir member =
     path_str (os_path_join unzip_dir (path_name (member_filename member)))"

definition member_meta :: "env \<Rightarrow> meta \<Rightarrow> string \<Rightarrow> zip_member \<Rightarrow> meta" where
  "member_meta E meta_zip unzip_dir member =
     build_meta E (meta_source meta_zip)
       (meta_title meta_zip @ '' - '' @ path_name (member_filename member))
       (meta_url meta_zip @ ''#'' @ member_filename member)
       (staging_path unzip_dir member)
       (path_name (member_filename member))
       (member_bytes member)
       [''Content-Type'' \<mapsto>
          guess_mime_type_from_ext (lower (path_suffix (path_name (member_filename member))))]
       (meta_downloaded_at meta_zip)"

definition stage_member :: "string \<Rightarrow> zip_member \<Rightarrow> filesystem \<Rightarrow> filesystem" where
  "stage_member unzip_dir member fs =
     write_file fs (os_path_join unzip_dir (path_name (member_filename member)))
       (member_bytes member)"

definition unzip_dir_of :: "string \<Rightarrow> meta \<Rightarrow> string" where
  "unzip_dir_of download_dir meta_zip =
     os_path_join download_dir (''unzipped_'' @ path_stem (meta_local_path meta_zip))"

definition proper_name :: "string \<Rightarrow> bool" where
  "proper_name n \<longleftrightarrow> n \<noteq> [] \<and> n \<noteq> ''.'' \<and> CHR ''/'' \<notin> set n"

text \<open>The two fields that identify a record for change detection.\<close>

definition meta_key :: "meta \<Rightarrow> string \<times> string" where
  "meta_key m = (meta_url m, meta_checksum m)"

text \<open>The record of the archive \<^verbatim>\<open>pack.zip\<close> of the concrete environment.\<close>

definition sample_parent :: "timestamp \<Rightarrow> meta" where
  "sample_parent t =
     \<lparr>meta_source = ''BCL_AnaCredit'', meta_title = ''Pack'',
      meta_url = ''https://h/d/pack.zip'', meta_local_path = ''data/raw/pack.zip'',
      meta_filename = ''pack.zip'', meta_filesize_bytes = 8,
      meta_checksum = ''sha256:PK-outer'', meta_mime_type = ''application/zip'',
      meta_downloaded_at = t\<rparr>"

section \<open>Downstream stages and the orchestrator\<close>

text \<open>
  Rows of \<^verbatim>\<open>document_texts\<close>, \<^verbatim>\<open>keyword_configs\<close>, \<^verbatim>\<open>keyword_matches\<close> and
  \<^verbatim>\<open>notification_logs\<close> (\<^verbatim>\<open>src/storage/sqlite_db.py\<close>); field names carry the table's
  prefix where two tables share a column name.
\<close>

record document_text =
  text_id :: nat
  text_document_id :: nat
  language :: string
  is_original :: bool
  full_text :: string
  summary :: "string option"
  text_created_at :: timestamp

record keyword_config =
  keyword_id :: nat
  keyword :: string
  category :: string
  is_active :: bool
  keyword_created_at :: timestamp

record keyword_match =
  match_id :: nat
  match_document_id :: nat
  match_text_id :: nat
  match_keyword_id :: nat
  occurrences :: nat
  context_snippet :: "string option"
  match_created_at :: timestamp

record notification_log =
  log_id :: nat
  log_document_id :: nat
  subject :: string
  recipients :: string
  status :: string
  error_message :: "string option"
  log_created_at :: timestamp

record email =
  mail_from :: string
  mail_to :: "string list"
  mail_subject :: string
  mail_body :: string

text \<open>
  The persistent state: the five tables, the files, every message handed to
  \<^verbatim>\<open>server.sendmail\<close>, and the number of clock readings taken so far by the storage layer.
\<close>

record state =
  documents :: "document list"
  document_texts :: "document_text list"
  keyword_configs :: "keyword_config list"
  keyword_matches :: "keyword_match list"
  notification_logs :: "notification_log list"
  files :: filesystem
  smtp_attempts :: "email list"
  ticks :: nat

text \<open>
  What the stages take from outside the repository: the clock, PyPDF2 (the text of each
  page, \<open>None\<close> where \<^verbatim>\<open>extract_text()\<close> gives nothing), pandas (each sheet's name with its
  CSV rendering; a CSV file's rendering), the OpenAI client (absent without an API key;
  else the reply to a prompt), \<^verbatim>\<open>textwrap.shorten\<close>, the spans of
  \<^verbatim>\<open>re.compile(re.escape(keyword), re.IGNORECASE).finditer(text)\<close>, the SMTP settings of
  the process environment, the SMTP delivery (\<open>None\<close> on success, else the exception's
  text) and \<^verbatim>\<open>str\<close> on integers.
\<close>

record services =
  clock :: "nat \<Rightarrow> timestamp"
  pdf_pages :: "bytes \<Rightarrow> error + string option list"
  excel_sheets :: "bytes \<Rightarrow> error + (string \<times> string) list"
  csv_rendering :: "bytes \<Rightarrow> error + string"
  openai_client :: "(string \<Rightarrow> error + string) option"
  shorten :: "string \<Rightarrow> nat \<Rightarrow> string"
  re_finditer :: "string \<Rightarrow> string \<Rightarrow> (nat \<times> nat) list"
  SMTP_HOST :: "string option"
  SMTP_PORT :: int
  SMTP_USER :: "string option"
  SMTP_PASSWORD :: "string option"
  SMTP_FROM :: "string option"
  SMTP_TO_DEFAULT :: string
  smtp_send :: "email \<Rightarrow> string option"
  str_of_int :: "int \<Rightarrow> string"

definition fresh_rowid :: "nat list \<Rightarrow> nat" where
  "fresh_rowid ids = Suc (foldr max ids 0)"

text \<open>\<^verbatim>\<open>upsert_document\<close> on the state: one clock reading, then the three-way upsert.\<close>

definition upsert_document_in :: "services \<Rightarrow> state \<Rightarrow> meta \<Rightarrow> state \<times> document" where
  "upsert_document_in S s m =
     (case upsert_document (clock S (ticks s)) (documents s) m of
        (rows, doc) \<Rightarrow> (s\<lparr>documents := rows, ticks := Suc (ticks s)\<rparr>, doc))"

definition save_document_text ::
  "services \<Rightarrow> state \<Rightarrow> nat \<Rightarrow> string \<Rightarrow> bool \<Rightarrow> string \<Rightarrow> string option
     \<Rightarrow> state \<times> document_text" where
  "save_document_text S s document_id lang original text summ =
     (let dt = \<lparr>text_id = fresh_rowid (map text_id (document_texts s)),
                text_document_id = document_id, language = lang, is_original = original,
                full_text = text, summary = summ, text_created_at = clock S (ticks s)\<rparr>
      in (s\<lparr>document_texts := document_texts s @ [dt], ticks := Suc (ticks s)\<rparr>, dt))"

definition get_active_keywords :: "state \<Rightarrow> keyword_config list" where
  "get_active_keywords s = filter is_active (keyword_configs s)"

definition save_keyword_match ::
  "services \<Rightarrow> state \<Rightarrow> nat \<Rightarrow> nat \<Rightarrow> nat \<Rightarrow> nat \<Rightarrow> string option \<Rightarrow> state" where
  "save_keyword_match S s document_id tid kid occ snippet =
     (let km = \<lparr>match_id = fresh_rowid (map match_id (keyword_matches s)),
                match_document_id = document_id, match_text_id = tid, match_keyword_id = kid,
                occurrences = occ, context_snippet = snippet,
                match_created_at = clock S (ticks s)\<rparr>
      in s\<lparr>keyword_matches := keyword_matches s @ [km], ticks := Suc (ticks s)\<rparr>)"

definition log_notification ::
  "services \<Rightarrow> state \<Rightarrow> nat \<Rightarrow> string \<Rightarrow> string \<Rightarrow> string \<Rightarrow> string option \<Rightarrow> state" where
  "log_notification S s document_id subj rcpts stat err =
     (let lg = \<lparr>log_id = fresh_rowid (map log_id (notification_logs s)),
                log_document_id = document_id, subject = subj, recipients = rcpts,
                status = stat, error_message = err, log_created_at = clock S (ticks s)\<rparr>
      in s\<lparr>notification_logs := notification_logs s @ [lg], ticks := Suc (ticks s)\<rparr>)"

subsection \<open>\<^verbatim>\<open>src/agents/content_extraction_agent.py\<close>\<close>

definition extract_text_from_pdf :: "services \<Rightarrow> filesystem \<Rightarrow> string \<Rightarrow> error + string" where
  "extract_text_from_pdf S fs file_path =
     (case read_file fs file_path of
        None \<Rightarrow> Inl (FileNotFoundError (''File not found: '' @ file_path))
      | Some b \<Rightarrow>
          (case pdf_pages S b of
             Inl e \<Rightarrow> Inl e
           | Inr pages \<Rightarrow>
               Inr (join_with [CHR 0x0A]
                      (map (\<lambda>page. case page of None \<Rightarrow> [] | Some t \<Rightarrow> t) pages))))"

definition extract_text_from_excel :: "services \<Rightarrow> filesystem \<Rightarrow> string \<Rightarrow> error + string" where
  "extract_text_from_excel S fs file_path =
     (case read_file fs file_path of
        None \<Rightarrow> Inl (FileNotFoundError (''File not found: '' @ file_path))
      | Some b \<Rightarrow>
          (case excel_sheets S b of
             Inl e \<Rightarrow> Inl e
           | Inr sheets \<Rightarrow>
               Inr (join_with [CHR 0x0A]
                      (concat (map (\<lambda>(sheet_name, csv).
                                 [''=== Sheet: '' @ sheet_name @ '' ==='', csv, []]) sheets)))))"

definition extract_text_from_csv :: "services \<Rightarrow> filesystem \<Rightarrow> string \<Rightarrow> error + string" where
  "extract_text_from_csv S fs file_path =
     (case read_file fs file_path of
        None \<Rightarrow> Inl (FileNotFoundError (''File not found: '' @ file_path))
      | Some b \<Rightarrow> csv_rendering S b)"

definition extract_text_for_document_file ::
  "services \<Rightarrow> filesystem \<Rightarrow> string \<Rightarrow> error + string" where
  "extract_text_for_document_file S fs file_path =
     (let suffix = lower (path_suffix file_path)
      in if suffix = ''.pdf'' then extract_text_from_pdf S fs file_path
         else if suffix \<in> set [''.xls'', ''.xlsx''] then extract_text_from_excel S fs file_path
         else if suffix = ''.csv'' then extract_text_from_csv S fs file_path
         else Inr [])"

text \<open>
  \<^verbatim>\<open>process_document_for_text\<close> returns nothing; the result is the state and the
  exception that left the function, if any.
\<close>

definition process_document_for_text ::
  "services \<Rightarrow> state \<Rightarrow> document \<Rightarrow> string \<Rightarrow> state \<times> error option" where
  "process_document_for_text S s doc lang =
     (let suffix = lower (path_suffix (local_path doc))
      in if suffix = ''.zip'' then (s, None)
         else
           (case extract_text_for_document_file S (files s) (local_path doc) of
              Inl e \<Rightarrow> (s, Some e)
            | Inr text \<Rightarrow>
                if strip text = [] then (s, None)
                else (fst (save_document_text S s (doc_id doc) lang True text None), None)))"

subsection \<open>\<^verbatim>\<open>src/agents/translation_agent.py\<close>\<close>

definition translate_text :: "services \<Rightarrow> string \<Rightarrow> string \<Rightarrow> string \<Rightarrow> error + string" where
  "translate_text S text source_lang target_lang =
     (case openai_client S of
        None \<Rightarrow> Inr text
      | Some create \<Rightarrow>
          (let prompt =
                 ''Translate the following '' @ source_lang @ '' regulatory text into ''
                   @ target_lang @ ''.'' @ [CHR 0x0A]
                   @ ''Preserve technical and regulatory terms as much as possible.''
                   @ [CHR 0x0A, CHR 0x0A] @ ''Text:'' @ [CHR 0x0A] @ take 8000 text
           in case create prompt of
                Inl e \<Rightarrow> Inl e
              | Inr content \<Rightarrow> Inr (strip content)))"

definition create_translation ::
  "services \<Rightarrow> state \<Rightarrow> document_text \<Rightarrow> string \<Rightarrow> string \<Rightarrow> state \<times> (error + document_text)" where
  "create_translation S s text_row source_lang target_lang =
     (case translate_text S (full_text text_row) source_lang target_lang of
        Inl e \<Rightarrow> (s, Inl e)
      | Inr translated_text \<Rightarrow>
          (case save_document_text S s (text_document_id text_row) target_lang False
                  translated_text (Some (shorten S translated_text 400)) of
             (s', translated_row) \<Rightarrow> (s', Inr translated_row)))"

subsection \<open>\<^verbatim>\<open>src/agents/keyword_agent.py\<close>\<close>

definition find_keyword_occurrences ::
  "services \<Rightarrow> string \<Rightarrow> string \<Rightarrow> nat \<times> string option" where
  "find_keyword_occurrences S text kw =
     (case re_finditer S kw text of
        [] \<Rightarrow> (0, None)
      | (first_start, first_end) # others \<Rightarrow>
          (let start = (if 200 \<le> first_start then first_start - 200 else 0);
               stop = min (length text) (first_end + 200);
               snippet = take (stop - start) (drop start text)
           in (Suc (length others), Some (shorten S snippet 400))))"

definition analyse_keyword ::
  "services \<Rightarrow> document_text \<Rightarrow> keyword_config \<Rightarrow> state \<Rightarrow> state" where
  "analyse_keyword S text_row kw s =
     (case find_keyword_occurrences S (full_text text_row) (keyword kw) of
        (count, snippet) \<Rightarrow>
          if 0 < count
          then save_keyword_match S s (text_document_id text_row) (text_id text_row)
                 (keyword_id kw) count snippet
          else s)"

definition analyse_document_text :: "services \<Rightarrow> state \<Rightarrow> document_text \<Rightarrow> state" where
  "analyse_document_text S s text_row =
     (if strip (full_text text_row) = [] then s
      else fold (analyse_keyword S text_row) (get_active_keywords s) s)"

subsection \<open>\<^verbatim>\<open>src/agents/notification_agent.py\<close>\<close>

text \<open>Python truthiness of an optional string: present and not empty.\<close>

definition truthy :: "string option \<Rightarrow> bool" where
  "truthy v = (case v of None \<Rightarrow> False | Some x \<Rightarrow> x \<noteq> [])"

text \<open>\<^verbatim>\<open>[addr.strip() for addr in SMTP_TO_DEFAULT.split(",") if addr.strip()]\<close>\<close>

definition smtp_recipients :: "services \<Rightarrow> string list" where
  "smtp_recipients S =
     map strip (filter (\<lambda>addr. strip addr \<noteq> []) (split_on CHR '','' (SMTP_TO_DEFAULT S)))"

definition smtp_configured :: "services \<Rightarrow> bool" where
  "smtp_configured S \<longleftrightarrow>
     truthy (SMTP_HOST S) \<and> truthy (SMTP_USER S) \<and> truthy (SMTP_PASSWORD S)
     \<and> truthy (SMTP_FROM S) \<and> smtp_recipients S \<noteq> []"

text \<open>
  The lines \<^verbatim>\<open>build_notification_body\<close> appends for the matches. \<^verbatim>\<open>m.keyword\<close> is the
  row of \<^verbatim>\<open>keyword_configs\<close> with the match's keyword id; reading \<^verbatim>\<open>.keyword\<close> of a missing
  row raises.
\<close>

fun match_lines :: "services \<Rightarrow> keyword_config list \<Rightarrow> keyword_match list \<Rightarrow> error + string list" where
  "match_lines S kcs [] = Inr []"
| "match_lines S kcs (m # ms) =
     (case find (\<lambda>kc. keyword_id kc = match_keyword_id m) kcs of
        None \<Rightarrow> Inl AttributeError
      | Some kw \<Rightarrow>
          (case match_lines S kcs ms of
             Inl e \<Rightarrow> Inl e
           | Inr ls \<Rightarrow>
               Inr ([''- '' @ keyword kw @ '' (occurrences: ''
                       @ str_of_int S (int (occurrences m)) @ '')'']
                    @ (if truthy (context_snippet m)
                       then [''  Context: '' @ the (context_snippet m), []]
                       else [])
                    @ ls)))"

definition build_notification_body ::
  "services \<Rightarrow> keyword_config list \<Rightarrow> document \<Rightarrow> keyword_match list \<Rightarrow> error + string" where
  "build_notification_body S kcs doc ms =
     (case match_lines S kcs ms of
        Inl e \<Rightarrow> Inl e
      | Inr ls \<Rightarrow>
          Inr (join_with [CHR 0x0A]
                 ([''Document: '' @ title doc, ''Source: '' @ source doc, ''URL: '' @ url doc,
                   ''Version: '' @ str_of_int S (version doc), [], ''Keywords detected:'']
                  @ ls)))"

text \<open>
  \<^verbatim>\<open>send_email_notification\<close>. An exception of the SMTP session is caught and logged as
  status \<^verbatim>\<open>ERROR\<close>; the log row is written after every attempt.
\<close>

definition send_email_notification ::
  "services \<Rightarrow> state \<Rightarrow> nat \<Rightarrow> int \<Rightarrow> state \<times> error option" where
  "send_email_notification S s document_id min_keywords =
     (if \<not> smtp_configured S then (s, None)
      else
        (case find (\<lambda>d. doc_id d = document_id) (documents s) of
           None \<Rightarrow> (s, None)
         | Some doc \<Rightarrow>
             (let ms = filter (\<lambda>m. match_document_id m = document_id) (keyword_matches s)
              in if int (length ms) < min_keywords then (s, None)
                 else
                   (let subj = ''[RegWatch] New/Updated document: '' @ title doc
                    in case build_notification_body S (keyword_configs s) doc ms of
                         Inl e \<Rightarrow> (s, Some e)
                       | Inr body \<Rightarrow>
                           (let msg = \<lparr>mail_from = the (SMTP_FROM S),
                                       mail_to = smtp_recipients S,
                                       mail_subject = subj, mail_body = body\<rparr>;
                                s1 = s\<lparr>smtp_attempts := smtp_attempts s @ [msg]\<rparr>;
                                rcpts = join_with '','' (smtp_recipients S)
                            in case smtp_send S msg of
                                 None \<Rightarrow>
                                   (log_notification S s1 document_id subj rcpts ''SENT'' None,
                                    None)
                               | Some err \<Rightarrow>
                                   (log_notification S s1 document_id subj rcpts ''ERROR''
                                      (Some err), None))))))"

subsection \<open>\<^verbatim>\<open>src/agents/orchestrator.py\<close>\<close>

text \<open>The first loop: \<^verbatim>\<open>for meta in metadata_list: docs.append(upsert_document(meta))\<close>.\<close>

fun upsert_each :: "services \<Rightarrow> state \<Rightarrow> meta list \<Rightarrow> state \<times> document list" where
  "upsert_each S s [] = (s, [])"
| "upsert_each S s (m # ms) =
     (case upsert_document_in S s m of
        (s1, doc) \<Rightarrow> (case upsert_each S s1 ms of (s2, docs) \<Rightarrow> (s2, doc # docs)))"

text \<open>The original-language texts of a document, newest first.\<close>

definition original_texts :: "state \<Rightarrow> nat \<Rightarrow> document_text list" where
  "original_texts s document_id =
     sort_key (\<lambda>t. - int (text_created_at t))
       (filter (\<lambda>t. text_document_id t = document_id \<and> is_original t) (document_texts s))"

text \<open>The inner loop over the original texts: translation, then the two keyword scans.\<close>

fun translate_and_scan ::
  "services \<Rightarrow> state \<Rightarrow> document_text list \<Rightarrow> string \<Rightarrow> string \<Rightarrow> state \<times> error option" where
  "translate_and_scan S s [] source_lang target_lang = (s, None)"
| "translate_and_scan S s (ot # ots) source_lang target_lang =
     (case create_translation S s ot source_lang target_lang of
        (s1, Inl e) \<Rightarrow> (s1, Some e)
      | (s1, Inr translated) \<Rightarrow>
          translate_and_scan S
            (analyse_document_text S (analyse_document_text S s1 ot) translated)
            ots source_lang target_lang)"

text \<open>The body of the loop over \<^verbatim>\<open>docs\<close> for one document.\<close>

definition process_document ::
  "services \<Rightarrow> state \<Rightarrow> document \<Rightarrow> string \<Rightarrow> string \<Rightarrow> state \<times> error option" where
  "process_document S s doc original_language target_language =
     (case find (\<lambda>d. doc_id d = doc_id doc) (documents s) of
        None \<Rightarrow> (s, Some AttributeError)
      | Some document \<Rightarrow>
          (case process_document_for_text S s document original_language of
             (s1, Some e) \<Rightarrow> (s1, Some e)
           | (s1, None) \<Rightarrow>
               (case translate_and_scan S s1 (original_texts s1 (doc_id document))
                       original_language target_language of
                  (s2, Some e) \<Rightarrow> (s2, Some e)
                | (s2, None) \<Rightarrow> send_email_notification S s2 (doc_id document) 1)))"

fun process_documents ::
  "services \<Rightarrow> state \<Rightarrow> document list \<Rightarrow> string \<Rightarrow> string \<Rightarrow> state \<times> error option" where
  "process_documents S s [] original_language target_language = (s, None)"
| "process_documents S s (doc # docs) original_language target_language =
     (case process_document S s doc original_language target_language of
        (s1, Some e) \<Rightarrow> (s1, Some e)
      | (s1, None) \<Rightarrow> process_documents S s1 docs original_language target_language)"

text \<open>
  \<^verbatim>\<open>run_full_pipeline_for_authority\<close>; \<^verbatim>\<open>init_db\<close> creates missing tables and changes no
  row.
\<close>

definition run_full_pipeline_for_authority ::
  "env \<Rightarrow> services \<Rightarrow> state \<Rightarrow> string \<Rightarrow> string \<Rightarrow> string \<Rightarrow> state \<times> error option" where
  "run_full_pipeline_for_authority E S s authority_code original_language target_language =
     (case AUTHORITY_CONFIG authority_code of
        None \<Rightarrow> (s, Some (ValueError (''Unknown authority: '' @ authority_code)))
      | Some cfg \<Rightarrow>
          (case run_extraction E authority_code ''data/raw'' (files s) of
             (fs, Inl e) \<Rightarrow> (s\<lparr>files := fs\<rparr>, Some e)
           | (fs, Inr metadata_list) \<Rightarrow>
               (case upsert_each S (s\<lparr>files := fs\<rparr>) metadata_list of
                  (s1, docs) \<Rightarrow>
                    process_documents S s1 docs original_language target_language)))"

text \<open>
  Concrete services and a concrete state: two stored PDF documents with their files, one
  active keyword, a PDF reader that returns one page, no OpenAI client
  (\<open>no_api_key = True\<close>) or one whose every call raises, and SMTP settings that are
  complete or lack the host.
\<close>

definition sample_services :: "bool \<Rightarrow> bool \<Rightarrow> services" where
  "sample_services no_api_key smtp_host_set =
     \<lparr>clock = (\<lambda>k. 1000 + k),
      pdf_pages = (\<lambda>b. Inr [Some ''loan exposure'']),
      excel_sheets = (\<lambda>b. Inr []),
      csv_rendering = (\<lambda>b. Inr b),
      openai_client = (if no_api_key then None else Some (\<lambda>prompt. Inl TranslationError)),
      shorten = (\<lambda>t w. take w t),
      re_finditer = (\<lambda>kw t. if kw = ''loan'' \<and> take 4 t = ''loan'' then [(0, 4)] else []),
      SMTP_HOST = (if smtp_host_set then Some ''smtp.example.org'' else None),
      SMTP_PORT = 587,
      SMTP_USER = Some ''regwatch'',
      SMTP_PASSWORD = Some ''secret'',
      SMTP_FROM = Some ''regwatch@example.org'',
      SMTP_TO_DEFAULT = ''ops@example.org'',
      smtp_send = (\<lambda>msg. None),
      str_of_int = (\<lambda>i. ''n'')\<rparr>"

definition sample_document :: "nat \<Rightarrow> string \<Rightarrow> document" where
  "sample_document i name =
     \<lparr>doc_id = i, source = ''BCL_AnaCredit'', title = name,
      url = ''https://h/d/'' @ name, filename = name, local_path = ''data/raw/'' @ name,
      filesize_bytes = 4, mime_type = ''application/pdf'', checksum = ''sha256:%PDF'',
      version = 1, previous_version_id = None, first_seen_at = 1, last_seen_at = 1,
      downloaded_at = 1\<rparr>"

definition sample_state :: "keyword_match list \<Rightarrow> state" where
  "sample_state matches =
     \<lparr>documents = [sample_document 1 ''one.pdf'', sample_document 2 ''two.pdf''],
      document_texts = [],
      keyword_configs =
        [\<lparr>keyword_id = 1, keyword = ''loan'', category = ''technical'', is_active = True,
          keyword_created_at = 0\<rparr>],
      keyword_matches = matches,
      notification_logs = [],
      files = [''data/raw/one.pdf'' \<mapsto> ''%PDF'', ''data/raw/two.pdf'' \<mapsto> ''%PDF''],
      smtp_attempts = [],
      ticks = 0\<rparr>"

definition sample_match :: keyword_match where
  "sample_match =
     \<lparr>match_id = 1, match_document_id = 1, match_text_id = 1, match_keyword_id = 1,
      occurrences = 1, context_snippet = Some ''loan exposure'', match_created_at = 5\<rparr>"

text \<open>
  Vocabulary for the statements about the stages. \<open>keyword_match_count\<close>: the number
  of rows of \<^verbatim>\<open>keyword_matches\<close> recorded for a document, the quantity
  \<^verbatim>\<open>send_email_notification\<close> compares with the minimum.
  \<open>document_keywords_resolve\<close>: each of these rows names an existing row of
  \<^verbatim>\<open>keyword_configs\<close> (SQLite does not enforce the foreign key). \<open>keeps_rows s s'\<close>: the state
  \<open>s'\<close> still holds every row and file of \<open>s\<close>; the tables the stages write have only
  grown at the end.
\<close>

definition keyword_match_count :: "state \<Rightarrow> nat \<Rightarrow> nat" where
  "keyword_match_count s document_id =
     length (filter (\<lambda>m. match_document_id m = document_id) (keyword_matches s))"

definition document_stored :: "state \<Rightarrow> nat \<Rightarrow> bool" where
  "document_stored s document_id = (find (\<lambda>d. doc_id d = document_id) (documents s) \<noteq> None)"

definition document_keywords_resolve :: "state \<Rightarrow> nat \<Rightarrow> bool" where
  "document_keywords_resolve s document_id =
     list_all (\<lambda>m. find (\<lambda>kc. keyword_id kc = match_keyword_id m) (keyword_configs s) \<noteq> None)
       (filter (\<lambda>m. match_document_id m = document_id) (keyword_matches s))"

definition keeps_rows :: "state \<Rightarrow> state \<Rightarrow> bool" where
  "keeps_rows s s' \<longleftrightarrow>
     documents s' = documents s \<and> keyword_configs s' = keyword_configs s \<and> files s' = files s
     \<and> (\<exists>new. document_texts s' = document_texts s @ new)
     \<and> (\<exists>new. keyword_matches s' = keyword_matches s @ new)
     \<and> (\<exists>new. notification_logs s' = notification_logs s @ new)
     \<and> (\<exists>new. smtp_attempts s' = smtp_attempts s @ new)"

definition texts_of :: "state \<Rightarrow> nat \<Rightarrow> document_text list" where
  "texts_of s document_id = filter (\<lambda>t. text_document_id t = document_id) (document_texts s)"

text \<open>The concrete services with a PDF reader that finds only blank pages.\<close>

definition sample_services_blank_pdf :: services where
  "sample_services_blank_pdf =
     (sample_services True True)\<lparr>pdf_pages := (\<lambda>b. Inr [Some '' '', None])\<rparr>"

text \<open>The text row that extraction stores for a document of the concrete state.\<close>

definition sample_text :: "nat \<Rightarrow> document_text" where
  "sample_text document_id =
     \<lparr>text_id = 1, text_document_id = document_id, language = ''FR'', is_original = True,
      full_text = ''loan exposure'', summary = None, text_created_at = 1000\<rparr>"

definition sample_state_after_extraction :: "nat \<Rightarrow> state" where
  "sample_state_after_extraction document_id =
     (sample_state [])\<lparr>document_texts := [sample_text document_id], ticks := 1\<rparr>"

text \<open>A match row of document 1 whose keyword row does not exist.\<close>

definition sample_dangling_match :: keyword_match where
  "sample_dangling_match =
     \<lparr>match_id = 1, match_document_id = 1, match_text_id = 1, match_keyword_id = 99,
      occurrences = 1, context_snippet = None, match_created_at = 5\<rparr>"

text \<open>
  A second run over stored documents: a text file, then \<^verbatim>\<open>two.pdf\<close>, which already has an
  original text from an earlier run, then \<^verbatim>\<open>one.pdf\<close>. The OpenAI client translates
  every text but one that ends with an exclamation mark; no SMTP host is set.
\<close>

definition sample_services_flaky :: services where
  "sample_services_flaky =
     (sample_services False False)\<lparr>openai_client :=
        Some (\<lambda>prompt. if prompt \<noteq> [] \<and> last prompt = CHR ''!'' then Inl TranslationError
                       else Inr ''loan translated'')\<rparr>"

definition sample_old_text :: document_text where
  "sample_old_text =
     \<lparr>text_id = 1, text_document_id = 2, language = ''FR'', is_original = True,
      full_text = ''old exposure!'', summary = None, text_created_at = 10\<rparr>"

definition sample_new_text :: document_text where
  "sample_new_text =
     \<lparr>text_id = 2, text_document_id = 2, language = ''FR'', is_original = True,
      full_text = ''loan exposure'', summary = None, text_created_at = 1000\<rparr>"

definition sample_translated_text :: document_text where
  "sample_translated_text =
     \<lparr>text_id = 3, text_document_id = 2, language = ''EN'', is_original = False,
      full_text = ''loan translated'', summary = Some ''loan translated'',
      text_created_at = 1001\<rparr>"

definition sample_rerun_state :: state where
  "sample_rerun_state =
     (sample_state [])\<lparr>documents :=
        [sample_document 3 ''readme.txt'', sample_document 2 ''two.pdf'',
         sample_document 1 ''one.pdf''],
       document_texts := [sample_old_text]\<rparr>"

definition sample_rerun_extracted :: state where
  "sample_rerun_extracted =
     sample_rerun_state\<lparr>document_texts := [sample_old_text, sample_new_text], ticks := 1\<rparr>"

definition sample_rerun_scanned :: state where
  "sample_rerun_scanned =
     sample_rerun_state\<lparr>document_texts :=
        [sample_old_text, sample_new_text, sample_translated_text],
       keyword_matches :=
        [\<lparr>match_id = 1, match_document_id = 2, match_text_id = 2, match_keyword_id = 1,
          occurrences = 1, context_snippet = Some ''loan exposure'', match_created_at = 1002\<rparr>,
         \<lparr>match_id = 2, match_document_id = 2, match_text_id = 3, match_keyword_id = 1,
          occurrences = 1, context_snippet = Some ''loan translated'',
          match_created_at = 1003\<rparr>],
       ticks := 4\<rparr>"

section \<open>The repository: three-way upsert, lineage, idempotence\<close>

lemma existing_docs_set: "set (existing_docs rows u) = {d \<in> set rows. url d = u}"
  by (auto simp: existing_docs_def)

lemma existing_docs_Nil_iff: "existing_docs rows u = [] \<longleftrightarrow> (\<forall>d\<in>set rows. url d \<noteq> u)"
proof -
  have "existing_docs rows u = [] \<longleftrightarrow> set (existing_docs rows u) = {}" by simp
  then show ?thesis unfolding existing_docs_set by blast
qed

lemma sort_key_hd_least:
  assumes "sort_key f xs = y # ys"
  shows "y \<in> set xs \<and> (\<forall>x\<in>set xs. f y \<le> f x)"
proof -
  have s: "sorted (map f (y # ys))" using assms sorted_sort_key [of f xs] by simp
  have e: "set (y # ys) = set xs" using assms set_sort [of f xs] by simp
  from s have "\<forall>x\<in>set (y # ys). f y \<le> f x" by auto
  with e show ?thesis by (metis list.set_intros(1))
qed

lemma existing_docs_latest:
  assumes "existing_docs rows u = l # rest"
  shows "is_latest rows u l"
proof -
  from assms have "l \<in> set (existing_docs rows u)" by simp
  then have m: "l \<in> set rows" "url l = u" by (simp_all add: existing_docs_set)
  from assms sort_key_hd_least [of "\<lambda>d. - version d" "filter (\<lambda>d. url d = u) rows" l rest]
  have "\<forall>d\<in>set (filter (\<lambda>d. url d = u) rows). - version l \<le> - version d"
    by (simp add: existing_docs_def)
  then show ?thesis using m by (auto simp: is_latest_def)
qed

lemma foldr_max_ge: "x \<in> set xs \<Longrightarrow> x \<le> foldr max xs (0::nat)"
  by (induction xs) auto

lemma next_id_fresh: "d \<in> set rows \<Longrightarrow> doc_id d < next_id rows"
  unfolding next_id_def using foldr_max_ge [of "doc_id d" "map doc_id rows"] by auto

text \<open>
  Claim C1. \<^verbatim>\<open>upsert_document\<close> follows the three-way algorithm keyed on the URL and
  the checksum. With no stored row for the URL it appends one row with version 1 and no
  predecessor. Otherwise the row it compares with is a latest row of the URL (no row of the
  URL has a higher version): when that row's checksum equals the incoming one the table
  keeps its length, only \<^verbatim>\<open>last_seen_at\<close> of that identity is written, and that row is
  returned; when the checksums differ it appends one row whose version is the latest
  version plus one and whose predecessor reference is the latest row's identity.
\<close>

theorem upsert_document_three_way:
  fixes now :: timestamp and rows :: "document list" and m :: meta
  defines "res \<equiv> upsert_document now rows m"
  shows
    "((\<forall>d\<in>set rows. url d \<noteq> meta_url m) \<longrightarrow>
        fst res = rows @ [snd res] \<and> snd res = new_document (next_id rows) m 1 None now
        \<and> doc_id (snd res) \<notin> doc_id ` set rows)
     \<and> ((\<exists>d\<in>set rows. url d = meta_url m) \<longrightarrow>
        (\<exists>l. existing_docs rows (meta_url m) \<noteq> [] \<and> l = hd (existing_docs rows (meta_url m))
           \<and> is_latest rows (meta_url m) l
           \<and> (checksum l = meta_checksum m \<longrightarrow>
                length (fst res) = length rows
                \<and> fst res = map (touch (doc_id l) now) rows
                \<and> snd res = l\<lparr>last_seen_at := now\<rparr>)
           \<and> (checksum l \<noteq> meta_checksum m \<longrightarrow>
                fst res = rows @ [snd res]
                \<and> snd res = new_document (next_id rows) m (version l + 1) (Some (doc_id l)) now
                \<and> doc_id (snd res) \<notin> doc_id ` set rows)))"
proof (intro conjI impI)
  assume a: "\<forall>d\<in>set rows. url d \<noteq> meta_url m"
  then have e: "existing_docs rows (meta_url m) = []" by (simp add: existing_docs_Nil_iff)
  show "fst res = rows @ [snd res]" by (simp add: res_def upsert_document_def e Let_def)
  show "snd res = new_document (next_id rows) m 1 None now"
    by (simp add: res_def upsert_document_def e Let_def)
  have "next_id rows \<notin> doc_id ` set rows" using next_id_fresh [of _ rows] by fastforce
  then show "doc_id (snd res) \<notin> doc_id ` set rows"
    by (simp add: res_def upsert_document_def e Let_def new_document_def)
next
  assume "\<exists>d\<in>set rows. url d = meta_url m"
  then have "existing_docs rows (meta_url m) \<noteq> []" by (simp add: existing_docs_Nil_iff)
  then obtain l rest where e: "existing_docs rows (meta_url m) = l # rest"
    by (cases "existing_docs rows (meta_url m)") auto
  have lt: "is_latest rows (meta_url m) l" using e by (rule existing_docs_latest)
  have fresh: "next_id rows \<notin> doc_id ` set rows" using next_id_fresh [of _ rows] by fastforce
  show "\<exists>l. existing_docs rows (meta_url m) \<noteq> [] \<and> l = hd (existing_docs rows (meta_url m))
           \<and> is_latest rows (meta_url m) l
           \<and> (checksum l = meta_checksum m \<longrightarrow>
                length (fst res) = length rows
                \<and> fst res = map (touch (doc_id l) now) rows
                \<and> snd res = l\<lparr>last_seen_at := now\<rparr>)
           \<and> (checksum l \<noteq> meta_checksum m \<longrightarrow>
                fst res = rows @ [snd res]
                \<and> snd res = new_document (next_id rows) m (version l + 1) (Some (doc_id l)) now
                \<and> doc_id (snd res) \<notin> doc_id ` set rows)"
    using lt fresh by (intro exI [of _ l]) (simp add: res_def upsert_document_def e Let_def new_document_def)
qed

lemma insort_key_map_commute:
  assumes "\<And>x. f (g x) = f x"
  shows "insort_key f (g x) (map g ys) = map g (insort_key f x ys)"
  by (induction ys) (simp_all add: assms)

lemma sort_key_map_commute:
  assumes "\<And>x. f (g x) = f x"
  shows "sort_key f (map g xs) = map g (sort_key f xs)"
  by (induction xs) (simp_all add: insort_key_map_commute assms)

lemma existing_docs_touch:
  "existing_docs (map (touch i t) rows) u = map (touch i t) (existing_docs rows u)"
proof -
  have f: "filter (\<lambda>d. url d = u) (map (touch i t) rows) = map (touch i t) (filter (\<lambda>d. url d = u) rows)"
    by (induction rows) (simp_all add: touch_def)
  show ?thesis unfolding existing_docs_def f
    by (rule sort_key_map_commute) (simp add: touch_def)
qed

lemma existing_docs_strict_max:
  assumes "d \<in> set rows" "url d = u"
    and "\<forall>e\<in>set rows. url e = u \<and> e \<noteq> d \<longrightarrow> version e < version d"
  shows "\<exists>rest. existing_docs rows u = d # rest"
proof -
  from assms(1,2) have "existing_docs rows u \<noteq> []" by (auto simp: existing_docs_Nil_iff)
  then obtain l rest where e: "existing_docs rows u = l # rest"
    by (cases "existing_docs rows u") auto
  then have "is_latest rows u l" by (rule existing_docs_latest)
  then have "l \<in> set rows" "url l = u" "version d \<le> version l"
    using assms(1,2) by (auto simp: is_latest_def)
  with assms(3) have "l = d" by force
  with e show ?thesis by simp
qed

lemma upsert_document_returns_latest:
  "\<exists>rest. existing_docs (fst (upsert_document now rows m)) (meta_url m)
            = snd (upsert_document now rows m) # rest
     \<and> checksum (snd (upsert_document now rows m)) = meta_checksum m"
proof (cases "existing_docs rows (meta_url m)")
  case Nil
  then have "\<forall>d\<in>set rows. url d \<noteq> meta_url m" by (simp add: existing_docs_Nil_iff)
  then have "filter (\<lambda>d. url d = meta_url m) rows = []" by (simp add: filter_empty_conv)
  then show ?thesis using Nil
    by (simp add: upsert_document_def Let_def existing_docs_def new_document_def)
next
  case (Cons l rest)
  then have lt: "is_latest rows (meta_url m) l" by (rule existing_docs_latest)
  show ?thesis
  proof (cases "checksum l = meta_checksum m")
    case True
    then show ?thesis using Cons
      by (simp add: upsert_document_def existing_docs_touch touch_def)
  next
    case False
    let ?doc = "new_document (next_id rows) m (version l + 1) (Some (doc_id l)) now"
    have r: "upsert_document now rows m = (rows @ [?doc], ?doc)"
      using Cons False by (simp add: upsert_document_def Let_def)
    have "doc_id ?doc \<notin> doc_id ` set rows"
      using next_id_fresh [of _ rows] by (fastforce simp: new_document_def)
    then have nin: "?doc \<notin> set rows" by blast
    have "\<exists>rest. existing_docs (rows @ [?doc]) (meta_url m) = ?doc # rest"
    proof (rule existing_docs_strict_max)
      show "?doc \<in> set (rows @ [?doc])" by simp
      show "url ?doc = meta_url m" by (simp add: new_document_def)
      show "\<forall>e\<in>set (rows @ [?doc]). url e = meta_url m \<and> e \<noteq> ?doc \<longrightarrow> version e < version ?doc"
        using lt by (auto simp: is_latest_def new_document_def)
    qed
    then show ?thesis unfolding r by (simp add: new_document_def)
  qed
qed

lemma upsert_document_in_table:
  "snd (upsert_document now rows m) \<in> set (fst (upsert_document now rows m))"
  using upsert_document_returns_latest [of now rows m]
    existing_docs_set [of "fst (upsert_document now rows m)" "meta_url m"]
  by (metis (no_types, lifting) list.set_intros(1) mem_Collect_eq)

lemma upsert_document_distinct_ids:
  assumes "distinct (map doc_id rows)"
  shows "distinct (map doc_id (fst (upsert_document now rows m)))"
proof -
  have fresh: "next_id rows \<notin> doc_id ` set rows" using next_id_fresh [of _ rows] by fastforce
  have t: "\<And>i. doc_id \<circ> touch i now = doc_id"
    by (auto simp: touch_def)
  show ?thesis using assms fresh
    by (auto simp: upsert_document_def Let_def new_document_def t split: list.splits)
qed

text \<open>
  Claim C3. Upsert is idempotent on (url, checksum): a second call with the same metadata
  returns the same version, leaves the number of rows unchanged, and changes nothing in
  the table but the \<^verbatim>\<open>last_seen_at\<close> field of the row the first call returned (every
  other field of that row, and every other row, is as the first call left it).
\<close>

theorem upsert_document_idempotent:
  fixes t1 t2 :: timestamp and rows :: "document list" and m :: meta
  defines "r1 \<equiv> upsert_document t1 rows m"
  defines "r2 \<equiv> upsert_document t2 (fst r1) m"
  assumes ids: "distinct (map doc_id rows)"
  shows "version (snd r2) = version (snd r1)
       \<and> length (fst r2) = length (fst r1)
       \<and> snd r1 \<in> set (fst r1)
       \<and> snd r2 = (snd r1)\<lparr>last_seen_at := t2\<rparr>
       \<and> (\<forall>i<length (fst r1).
            fst r2 ! i = (if fst r1 ! i = snd r1 then snd r2 else fst r1 ! i))"
proof -
  obtain rest where e: "existing_docs (fst r1) (meta_url m) = snd r1 # rest"
    and c: "checksum (snd r1) = meta_checksum m"
    using upsert_document_returns_latest [of t1 rows m] by (auto simp: r1_def)
  have r2: "r2 = (map (touch (doc_id (snd r1)) t2) (fst r1), (snd r1)\<lparr>last_seen_at := t2\<rparr>)"
    by (simp add: r2_def upsert_document_def e c)
  have mem: "snd r1 \<in> set (fst r1)" unfolding r1_def by (rule upsert_document_in_table)
  have d1: "distinct (map doc_id (fst r1))"
    unfolding r1_def using ids by (rule upsert_document_distinct_ids)
  have same: "\<And>x. x \<in> set (fst r1) \<Longrightarrow> doc_id x = doc_id (snd r1) \<longleftrightarrow> x = snd r1"
    using d1 mem by (meson distinct_map inj_onD)
  have "\<forall>i<length (fst r1). fst r2 ! i = (if fst r1 ! i = snd r1 then snd r2 else fst r1 ! i)"
    using same by (simp add: r2 touch_def)
  then show ?thesis using mem by (simp add: r2)
qed

lemma lineage_version_nth:
  assumes "lineage rs" "i < length rs"
  shows "version (rs ! i) = int (Suc i)"
proof -
  from assms(1) have "map version rs ! i = map int [1..<Suc (length rs)] ! i"
    by (simp add: lineage_def)
  then show ?thesis using assms(2) by (simp del: upt_Suc)
qed

lemma lineage_latest_is_last:
  assumes l: "lineage (filter (\<lambda>d. url d = u) rows)"
    and ne: "filter (\<lambda>d. url d = u) rows \<noteq> []"
  shows "\<exists>rest. existing_docs rows u = last (filter (\<lambda>d. url d = u) rows) # rest"
proof (rule existing_docs_strict_max)
  let ?rs = "filter (\<lambda>d. url d = u) rows"
  have "last ?rs \<in> set ?rs" using ne by (rule last_in_set)
  then show "last ?rs \<in> set rows" "url (last ?rs) = u" by simp_all
  have vl: "version (last ?rs) = int (length ?rs)"
    using lineage_version_nth [OF l, of "length ?rs - 1"] ne
    by (simp add: last_conv_nth)
  show "\<forall>e\<in>set rows. url e = u \<and> e \<noteq> last ?rs \<longrightarrow> version e < version (last ?rs)"
  proof (intro ballI impI)
    fix e assume "e \<in> set rows" and h: "url e = u \<and> e \<noteq> last ?rs"
    then have "e \<in> set ?rs" by simp
    then obtain i where i: "i < length ?rs" "?rs ! i = e" by (metis in_set_conv_nth)
    with h ne have "i \<noteq> length ?rs - 1" by (auto simp: last_conv_nth)
    with i have "Suc i < length ?rs" by simp
    moreover have "version e = int (Suc i)" using lineage_version_nth [OF l i(1)] i(2) by simp
    ultimately show "version e < version (last ?rs)" using vl by simp
  qed
qed

lemma lineage_snoc:
  assumes l: "lineage rs"
    and v: "version d = int (Suc (length rs))"
    and p: "previous_version_id d = (if rs = [] then None else Some (doc_id (last rs)))"
    and f: "\<forall>e\<in>set rs. doc_id e < doc_id d"
  shows "lineage (rs @ [d])"
proof -
  have 1: "map version (rs @ [d]) = map int [1..<Suc (length (rs @ [d]))]"
    using l v by (simp add: lineage_def)
  have 2: "\<forall>i<length (rs @ [d]). previous_version_id ((rs @ [d]) ! i)
            = (if i = 0 then None else Some (doc_id ((rs @ [d]) ! (i - 1))))"
  proof (intro allI impI)
    fix i assume "i < length (rs @ [d])"
    then consider "i < length rs" | "i = length rs" by fastforce
    then show "previous_version_id ((rs @ [d]) ! i)
            = (if i = 0 then None else Some (doc_id ((rs @ [d]) ! (i - 1))))"
    proof cases
      case 1
      then have "i - 1 < length rs" by simp
      with 1 show ?thesis using l by (simp add: lineage_def nth_append)
    next
      case 2
      then show ?thesis using p by (cases "rs = []") (simp_all add: nth_append last_conv_nth)
    qed
  qed
  have 3: "sorted_wrt (<) (map doc_id (rs @ [d]))"
    using l f by (simp add: lineage_def sorted_wrt_append)
  from 1 2 3 show ?thesis unfolding lineage_def by blast
qed

lemma upsert_document_extends_lineage:
  assumes l: "lineage (filter (\<lambda>d. url d = u) rows)"
    and u: "meta_url m = u"
    and c: "\<forall>e\<in>set (filter (\<lambda>d. url d = u) rows). checksum e \<noteq> meta_checksum m"
  shows "\<exists>d. fst (upsert_document now rows m) = rows @ [d] \<and> url d = u
            \<and> checksum d = meta_checksum m
            \<and> lineage (filter (\<lambda>d. url d = u) rows @ [d])"
proof (cases "filter (\<lambda>d. url d = u) rows = []")
  case True
  then have e: "existing_docs rows u = []" by (simp add: existing_docs_def)
  let ?d = "new_document (next_id rows) m 1 None now"
  have "lineage ([] @ [?d])"
    by (rule lineage_snoc) (simp_all add: lineage_def new_document_def)
  then show ?thesis using True u
    by (intro exI [of _ ?d]) (simp add: upsert_document_def e Let_def new_document_def)
next
  case False
  let ?rs = "filter (\<lambda>d. url d = u) rows"
  from lineage_latest_is_last [OF l False] obtain rest
    where e: "existing_docs rows (meta_url m) = last ?rs # rest" using u by auto
  have li: "last ?rs \<in> set ?rs" using False by (rule last_in_set)
  then have ne: "checksum (last ?rs) \<noteq> meta_checksum m" using c by blast
  let ?d = "new_document (next_id rows) m (version (last ?rs) + 1) (Some (doc_id (last ?rs))) now"
  have r: "fst (upsert_document now rows m) = rows @ [?d]"
    using e ne by (simp add: upsert_document_def Let_def)
  have vl: "version (last ?rs) = int (length ?rs)"
    using lineage_version_nth [OF l, of "length ?rs - 1"] False
    by (simp add: last_conv_nth)
  have "lineage (?rs @ [?d])"
  proof (rule lineage_snoc [OF l])
    show "version ?d = int (Suc (length ?rs))" using vl by (simp add: new_document_def)
    show "previous_version_id ?d = (if ?rs = [] then None else Some (doc_id (last ?rs)))"
      using False by (simp add: new_document_def)
    show "\<forall>e\<in>set ?rs. doc_id e < doc_id ?d"
      using next_id_fresh [of _ rows] by (simp add: new_document_def)
  qed
  then show ?thesis using r u by (intro exI [of _ ?d]) (simp add: new_document_def)
qed

lemma upsert_all_lineage:
  assumes "lineage (filter (\<lambda>d. url d = u) rows)"
    and "\<forall>x\<in>set ms. meta_url (snd x) = u"
    and "distinct (map checksum (filter (\<lambda>d. url d = u) rows) @ map (meta_checksum \<circ> snd) ms)"
  shows "\<exists>ds. filter (\<lambda>d. url d = u) (upsert_all rows ms) = filter (\<lambda>d. url d = u) rows @ ds
            \<and> map checksum ds = map (meta_checksum \<circ> snd) ms
            \<and> lineage (filter (\<lambda>d. url d = u) rows @ ds)"
  using assms
proof (induction ms arbitrary: rows)
  case Nil
  then show ?case by simp
next
  case (Cons x ms)
  obtain now m where x: "x = (now, m)" by (cases x)
  let ?rs = "filter (\<lambda>d. url d = u) rows"
  have mu: "meta_url m = u" using Cons.prems(2) x by simp
  have "meta_checksum m \<notin> set (map checksum ?rs)"
    using Cons.prems(3) x by simp
  then have c: "\<forall>e\<in>set ?rs. checksum e \<noteq> meta_checksum m"
    by (metis image_eqI set_map)
  from upsert_document_extends_lineage [OF Cons.prems(1) mu c, of now]
  obtain d where d: "fst (upsert_document now rows m) = rows @ [d]" "url d = u"
    "checksum d = meta_checksum m" "lineage (?rs @ [d])" by blast
  let ?rows' = "rows @ [d]"
  have f: "filter (\<lambda>d. url d = u) ?rows' = ?rs @ [d]" using d(2) by simp
  have 1: "lineage (filter (\<lambda>d. url d = u) ?rows')" using d(4) f by simp
  have 2: "\<forall>x\<in>set ms. meta_url (snd x) = u" using Cons.prems(2) by simp
  have 3: "distinct (map checksum (filter (\<lambda>d. url d = u) ?rows') @ map (meta_checksum \<circ> snd) ms)"
    using Cons.prems(3) x d(3) unfolding f by (auto simp: comp_def)
  from Cons.IH [OF 1 2 3] obtain ds
    where ds: "filter (\<lambda>d. url d = u) (upsert_all ?rows' ms) = filter (\<lambda>d. url d = u) ?rows' @ ds"
      "map checksum ds = map (meta_checksum \<circ> snd) ms"
      "lineage (filter (\<lambda>d. url d = u) ?rows' @ ds)" by blast
  show ?case
    using ds d(3) unfolding f x by (intro exI [of _ "d # ds"]) (simp add: d(1))
qed

text \<open>
  Claim C2. Starting from a table with no row for URL \<open>u\<close>, \<open>N\<close> successive upserts
  to \<open>u\<close> with pairwise distinct checksums leave exactly \<open>N\<close> rows for \<open>u\<close>, with the
  versions 1..N and the checksums in insertion order; the first has no predecessor and
  every other row's predecessor reference is the identity of the row inserted just before
  it; a predecessor's identity is smaller than the row's own (no cycle) and no two rows
  share a predecessor (no branching).
\<close>

theorem sequential_upserts_lineage:
  fixes rows :: "document list" and ms :: "(timestamp \<times> meta) list" and u :: string
  defines "rs \<equiv> filter (\<lambda>d. url d = u) (upsert_all rows ms)"
  assumes fresh: "\<forall>d\<in>set rows. url d \<noteq> u"
    and same_url: "\<forall>x\<in>set ms. meta_url (snd x) = u"
    and checksums: "distinct (map (meta_checksum \<circ> snd) ms)"
  shows "length rs = length ms
       \<and> map version rs = map int [1..<Suc (length ms)]
       \<and> map checksum rs = map (meta_checksum \<circ> snd) ms
       \<and> (\<forall>i<length rs. previous_version_id (rs ! i)
             = (if i = 0 then None else Some (doc_id (rs ! (i - 1)))))
       \<and> (\<forall>i<length rs. \<forall>p. previous_version_id (rs ! i) = Some p \<longrightarrow> p < doc_id (rs ! i))
       \<and> (\<forall>i<length rs. \<forall>j<length rs.
             previous_version_id (rs ! i) \<noteq> None
             \<and> previous_version_id (rs ! i) = previous_version_id (rs ! j) \<longrightarrow> i = j)"
proof -
  have e: "filter (\<lambda>d. url d = u) rows = []" using fresh by (simp add: filter_empty_conv)
  have "lineage (filter (\<lambda>d. url d = u) rows)" unfolding e by (simp add: lineage_def)
  from upsert_all_lineage [OF this same_url] checksums e
  obtain ds where ds: "rs = ds" "map checksum ds = map (meta_checksum \<circ> snd) ms" "lineage ds"
    unfolding rs_def by auto
  have len: "length rs = length ms" using ds(1,2) by (metis length_map)
  have l: "lineage rs" using ds by simp
  have srt: "sorted_wrt (<) (map doc_id rs)" using l by (simp add: lineage_def)
  have inc: "\<And>i j. i < j \<Longrightarrow> j < length rs \<Longrightarrow> doc_id (rs ! i) < doc_id (rs ! j)"
    using srt by (simp add: sorted_wrt_iff_nth_less)
  have prev: "\<forall>i<length rs. previous_version_id (rs ! i)
             = (if i = 0 then None else Some (doc_id (rs ! (i - 1))))"
    using l by (simp add: lineage_def)
  have acyc: "\<forall>i<length rs. \<forall>p. previous_version_id (rs ! i) = Some p \<longrightarrow> p < doc_id (rs ! i)"
  proof (intro allI impI)
    fix i p assume i: "i < length rs" and p: "previous_version_id (rs ! i) = Some p"
    with prev have "i \<noteq> 0" "p = doc_id (rs ! (i - 1))" by (auto split: if_splits)
    then show "p < doc_id (rs ! i)" using inc [of "i - 1" i] i by simp
  qed
  have inj: "\<And>a b. a < length rs \<Longrightarrow> b < length rs \<Longrightarrow> doc_id (rs ! a) = doc_id (rs ! b) \<Longrightarrow> a = b"
  proof -
    fix a b assume "a < length rs" "b < length rs" "doc_id (rs ! a) = doc_id (rs ! b)"
    then show "a = b" using inc [of a b] inc [of b a] by (cases a b rule: linorder_cases) auto
  qed
  have nobranch: "\<forall>i<length rs. \<forall>j<length rs.
             previous_version_id (rs ! i) \<noteq> None
             \<and> previous_version_id (rs ! i) = previous_version_id (rs ! j) \<longrightarrow> i = j"
  proof (intro allI impI)
    fix i j assume i: "i < length rs" and j: "j < length rs"
      and h: "previous_version_id (rs ! i) \<noteq> None
             \<and> previous_version_id (rs ! i) = previous_version_id (rs ! j)"
    from h prev i j have i0: "i \<noteq> 0" and j0: "j \<noteq> 0" by (auto split: if_splits)
    with h prev i j have "doc_id (rs ! (i - 1)) = doc_id (rs ! (j - 1))" by auto
    then have "i - 1 = j - 1" using inj [of "i - 1" "j - 1"] i j by simp
    then show "i = j" using i0 j0 by simp
  qed
  have ver: "map version rs = map int [1..<Suc (length ms)]"
    using l len by (simp add: lineage_def)
  show ?thesis using len ver ds(1,2) prev acyc nobranch by blast
qed

subsection \<open>The repository theorems at concrete tables\<close>

theorem upsert_document_three_way_witness:
  "version (snd (upsert_document 1 [] (sample_meta ''u'' ''a''))) = 1
   \<and> previous_version_id (snd (upsert_document 1 [] (sample_meta ''u'' ''a''))) = None
   \<and> length (fst (upsert_document 2 [new_document 1 (sample_meta ''u'' ''a'') 1 None 1]
         (sample_meta ''u'' ''a''))) = 1
   \<and> last_seen_at (snd (upsert_document 2 [new_document 1 (sample_meta ''u'' ''a'') 1 None 1]
         (sample_meta ''u'' ''a''))) = 2
   \<and> version (snd (upsert_document 2 [new_document 1 (sample_meta ''u'' ''a'') 1 None 1]
         (sample_meta ''u'' ''b''))) = 2
   \<and> previous_version_id (snd (upsert_document 2 [new_document 1 (sample_meta ''u'' ''a'') 1 None 1]
         (sample_meta ''u'' ''b''))) = Some 1"
  using upsert_document_three_way [where rows = "[]" and m = "sample_meta ''u'' ''a''" and now = 1]
    upsert_document_three_way [where rows = "[new_document 1 (sample_meta ''u'' ''a'') 1 None 1]"
      and m = "sample_meta ''u'' ''a''" and now = 2]
    upsert_document_three_way [where rows = "[new_document 1 (sample_meta ''u'' ''a'') 1 None 1]"
      and m = "sample_meta ''u'' ''b''" and now = 2]
  by (simp add: existing_docs_def sample_meta_def new_document_def is_latest_def)

theorem upsert_document_idempotent_witness:
  "distinct (map doc_id [new_document 1 (sample_meta ''u'' ''a'') 1 None 1])
   \<and> length (fst (upsert_document 3
         (fst (upsert_document 2 [new_document 1 (sample_meta ''u'' ''a'') 1 None 1]
            (sample_meta ''u'' ''b''))) (sample_meta ''u'' ''b''))) = 2
   \<and> version (snd (upsert_document 3
         (fst (upsert_document 2 [new_document 1 (sample_meta ''u'' ''a'') 1 None 1]
            (sample_meta ''u'' ''b''))) (sample_meta ''u'' ''b''))) = 2"
  using upsert_document_idempotent [where rows = "[new_document 1 (sample_meta ''u'' ''a'') 1 None 1]"
      and ?t1.0 = 2 and m = "sample_meta ''u'' ''b''" and ?t2.0 = 3]
  by (simp add: upsert_document_def existing_docs_def sample_meta_def new_document_def
      next_id_def Let_def)

theorem sequential_upserts_lineage_witness:
  "distinct (map (meta_checksum \<circ> snd)
        [(1, sample_meta ''u'' ''a''), (2, sample_meta ''u'' ''b''), (3, sample_meta ''u'' ''c'')])
   \<and> map version (filter (\<lambda>d. url d = ''u'')
        (upsert_all [new_document 1 (sample_meta ''other'' ''z'') 1 None 0]
          [(1, sample_meta ''u'' ''a''), (2, sample_meta ''u'' ''b''), (3, sample_meta ''u'' ''c'')]))
      = [1, 2, 3]
   \<and> map previous_version_id (filter (\<lambda>d. url d = ''u'')
        (upsert_all [new_document 1 (sample_meta ''other'' ''z'') 1 None 0]
          [(1, sample_meta ''u'' ''a''), (2, sample_meta ''u'' ''b''), (3, sample_meta ''u'' ''c'')]))
      = [None, Some 2, Some 3]"
  using sequential_upserts_lineage [where rows = "[new_document 1 (sample_meta ''other'' ''z'') 1 None 0]"
      and u = "''u''"
      and ms = "[(1, sample_meta ''u'' ''a''), (2, sample_meta ''u'' ''b''), (3, sample_meta ''u'' ''c'')]"]
  by (simp add: upsert_document_def existing_docs_def sample_meta_def new_document_def
      next_id_def Let_def)

section \<open>Paths: the last component survives joining and normalisation\<close>

lemma split_on_nonempty: "split_on c s \<noteq> []"
  by (induction s) (auto split: list.splits)

lemma split_on_no_sep: "c \<notin> set s \<Longrightarrow> split_on c s = [s]"
  by (induction s) auto

lemma split_on_append: "split_on c (xs @ c # ys) = split_on c xs @ split_on c ys"
proof (induction xs)
  case Nil
  then show ?case by simp
next
  case (Cons x xs)
  then show ?case using split_on_nonempty [of c xs]
    by (cases "split_on c xs") auto
qed

lemma split_on_elems: "w \<in> set (split_on c s) \<Longrightarrow> c \<notin> set w"
proof (induction s arbitrary: w)
  case Nil
  then show ?case by simp
next
  case (Cons x xs)
  then show ?case using split_on_nonempty [of c xs]
    by (cases "split_on c xs") (auto split: if_splits)
qed

lemma splitroot_shape:
  "\<exists>k r. splitroot s = (r, drop k s) \<and> k \<le> 2 \<and> take k s = replicate k CHR ''/''
         \<and> (r = [] \<or> last r = CHR ''/'')"
proof (cases s)
  case Nil
  then show ?thesis by (intro exI [of _ 0]) (simp add: splitroot_def)
next
  case (Cons a t)
  show ?thesis
  proof (cases "a = CHR ''/''")
    case False
    then show ?thesis using Cons by (intro exI [of _ 0]) (simp add: splitroot_def)
  next
    case True
    show ?thesis
    proof (cases "take 1 t \<noteq> ''/'' \<or> take 1 (drop 1 t) = ''/''")
      case True
      then show ?thesis using Cons \<open>a = CHR ''/''\<close>
        by (intro exI [of _ 1] exI [of _ "''/''"]) (auto simp add: splitroot_def)
    next
      case False
      then obtain t' where "t = CHR ''/'' # t'" by (cases t) auto
      then show ?thesis using Cons \<open>a = CHR ''/''\<close> False
        by (intro exI [of _ 2] exI [of _ "''//''"]) (auto simp add: splitroot_def numeral_2_eq_2)
    qed
  qed
qed

lemma path_name_in_parts:
  "path_name p \<noteq> [] \<Longrightarrow> proper_name (path_name p)"
proof -
  assume ne: "path_name p \<noteq> []"
  obtain r rel where sr: "splitroot p = (r, rel)" by (cases "splitroot p")
  let ?ps = "filter (\<lambda>x. x \<noteq> [] \<and> x \<noteq> ''.'') (split_on CHR ''/'' rel)"
  have pp: "snd (path_parts p) = ?ps" by (simp add: path_parts_def sr)
  with ne have "?ps \<noteq> []" by (auto simp: path_name_def)
  then have "path_name p = last ?ps" using pp by (cases ?ps) (auto simp: path_name_def)
  moreover have "last ?ps \<in> set ?ps" using \<open>?ps \<noteq> []\<close> by (rule last_in_set)
  ultimately have "path_name p \<in> set ?ps" by simp
  then show ?thesis using split_on_elems [of "path_name p" "CHR ''/''" rel]
    by (auto simp: proper_name_def)
qed

lemma parts_of_proper_tail:
  assumes n: "proper_name n" and x: "X = [] \<or> last X = CHR ''/''"
  shows "\<exists>r ps. path_parts (X @ n) = (r, ps @ [n]) \<and> (r = [] \<or> last r = CHR ''/'')"
proof -
  from n have nne: "n \<noteq> []" and nos: "CHR ''/'' \<notin> set n" and nd: "n \<noteq> ''.''"
    by (auto simp: proper_name_def)
  have hd: "hd n \<noteq> CHR ''/''" using nne nos hd_in_set [of n] by metis
  obtain k r where sr: "splitroot (X @ n) = (r, drop k (X @ n))" and k2: "k \<le> 2"
    and tk: "take k (X @ n) = replicate k CHR ''/''" and r: "r = [] \<or> last r = CHR ''/''"
    using splitroot_shape [of "X @ n"] by blast
  have kX: "k \<le> length X"
  proof (rule ccontr)
    assume "\<not> k \<le> length X"
    then have lt: "length X < k" by simp
    have "take k (X @ n) ! length X = (X @ n) ! length X" using lt by (rule nth_take)
    moreover have "(X @ n) ! length X = hd n" using nne by (simp add: hd_conv_nth nth_append)
    moreover have "replicate k CHR ''/'' ! length X = CHR ''/''" using lt by simp
    ultimately show False using tk hd by simp
  qed
  obtain W where dr: "drop k (X @ n) = W @ n" and W: "W = [] \<or> last W = CHR ''/''"
  proof
    show "drop k (X @ n) = drop k X @ n" using kX by simp
    show "drop k X = [] \<or> last (drop k X) = CHR ''/''"
    proof (cases "k < length X")
      case True
      then show ?thesis using x by (auto simp: last_drop)
    next
      case False
      then show ?thesis by simp
    qed
  qed
  have "\<exists>qs. split_on CHR ''/'' (W @ n) = qs @ [n]"
  proof (cases "W = []")
    case True
    then show ?thesis using split_on_no_sep [OF nos] by simp
  next
    case False
    with W obtain W' where W': "W = W' @ [CHR ''/'']" by (metis append_butlast_last_id)
    have "split_on CHR ''/'' (W' @ CHR ''/'' # n) = split_on CHR ''/'' W' @ [n]"
      by (simp add: split_on_append split_on_no_sep [OF nos])
    then show ?thesis unfolding W' by auto
  qed
  then obtain qs where qs: "split_on CHR ''/'' (W @ n) = qs @ [n]" by blast
  have "path_parts (X @ n) = (r, filter (\<lambda>x. x \<noteq> [] \<and> x \<noteq> ''.'') qs @ [n])"
  proof -
    have sr': "splitroot (X @ n) = (r, W @ n)" using sr dr by metis
    show ?thesis using nne nd by (simp add: path_parts_def sr' qs)
  qed
  then show ?thesis using r by blast
qed

lemma join_with_snoc:
  "join_with sep (ps @ [n]) = (if ps = [] then n else join_with sep ps @ sep @ n)"
  by (induction sep ps rule: join_with.induct) auto

lemma basename_tail:
  assumes "CHR ''/'' \<notin> set n" and "Y = [] \<or> last Y = CHR ''/''"
  shows "os_path_basename (Y @ n) = n"
proof (cases "Y = []")
  case True
  have tw: "takeWhile (\<lambda>x. x \<noteq> CHR ''/'') (rev n) = rev n"
    using assms(1) by (auto simp: takeWhile_eq_all_conv)
  show ?thesis unfolding os_path_basename_def True append_Nil tw by simp
next
  case False
  with assms(2) obtain Y' where Y: "Y = Y' @ [CHR ''/'']" by (metis append_butlast_last_id)
  have tw: "takeWhile (\<lambda>x. x \<noteq> CHR ''/'') (rev n @ CHR ''/'' # rev Y') = rev n"
    using assms(1) by (auto simp: takeWhile_tail)
  have "rev ((Y' @ [CHR ''/'']) @ n) = rev n @ CHR ''/'' # rev Y'" by simp
  then show ?thesis unfolding os_path_basename_def Y tw by (simp only: tw rev_rev_ident)
qed

lemma path_str_basename:
  assumes n: "proper_name n" and x: "X = [] \<or> last X = CHR ''/''"
  shows "os_path_basename (path_str (X @ n)) = n"
proof -
  from parts_of_proper_tail [OF n x] obtain r ps
    where pp: "path_parts (X @ n) = (r, ps @ [n])" and r: "r = [] \<or> last r = CHR ''/''" by blast
  from n have nne: "n \<noteq> []" and nos: "CHR ''/'' \<notin> set n" by (auto simp: proper_name_def)
  let ?Y = "if ps = [] then r else r @ join_with ''/'' ps @ ''/''"
  have s: "path_str (X @ n) = ?Y @ n"
    using nne by (simp add: path_str_def pp join_with_snoc Let_def)
  have "?Y = [] \<or> last ?Y = CHR ''/''" using r by auto
  then show ?thesis unfolding s by (rule basename_tail [OF nos])
qed

lemma os_path_join_proper:
  assumes "proper_name n"
  shows "\<exists>X. os_path_join d n = X @ n \<and> (X = [] \<or> last X = CHR ''/'')"
proof -
  from assms have t: "take 1 n \<noteq> ''/''" by (cases n) (auto simp: proper_name_def)
  show ?thesis
  proof (cases "d = [] \<or> last d = CHR ''/''")
    case True
    then have "os_path_join d n = d @ n" using t by (simp add: os_path_join_def)
    then show ?thesis using True by blast
  next
    case False
    then have "os_path_join d n = (d @ ''/'') @ n" using t by (simp add: os_path_join_def)
    moreover have "last (d @ ''/'') = CHR ''/''" by simp
    ultimately show ?thesis by blast
  qed
qed

lemma staging_basename:
  assumes "proper_name n"
  shows "os_path_basename (path_str (os_path_join d n)) = n"
proof -
  from os_path_join_proper [OF assms, of d] obtain X
    where X: "os_path_join d n = X @ n" "X = [] \<or> last X = CHR ''/''" by blast
  show ?thesis unfolding X(1) using assms X(2) by (rule path_str_basename)
qed

section \<open>Archive expansion\<close>

lemma path_name_proper: "proper_name n \<Longrightarrow> path_name n = n"
proof -
  assume n: "proper_name n"
  from parts_of_proper_tail [OF n, of "[]"] obtain r ps
    where "path_parts n = (r, ps @ [n])" by auto
  then show ?thesis by (cases ps) (simp_all add: path_name_def)
qed

lemma lower_Nil_not_supported: "lower [] \<notin> set SUPPORTED_EXTENSIONS"
  by (simp add: lower_def SUPPORTED_EXTENSIONS_def)

lemma path_suffix_Nil: "path_suffix [] = []"
  by (simp add: path_suffix_def path_name_def path_parts_def splitroot_def name_suffix_def rfind_def)

lemma retained_proper:
  assumes "retained m"
  shows "proper_name (path_name (member_filename m))"
proof (rule path_name_in_parts)
  show "path_name (member_filename m) \<noteq> []"
  proof
    assume "path_name (member_filename m) = []"
    then have "lower (path_suffix (path_name (member_filename m))) = lower []"
      by (simp add: path_suffix_Nil)
    with assms show False using lower_Nil_not_supported by (simp add: retained_def)
  qed
qed

lemma staging_path_inj:
  assumes "retained a" "retained b" "staging_path ud a = staging_path ud b"
  shows "path_name (member_filename a) = path_name (member_filename b)"
proof -
  have "os_path_basename (staging_path ud a) = path_name (member_filename a)"
    unfolding staging_path_def by (rule staging_basename [OF retained_proper [OF assms(1)]])
  moreover have "os_path_basename (staging_path ud b) = path_name (member_filename b)"
    unfolding staging_path_def by (rule staging_basename [OF retained_proper [OF assms(2)]])
  ultimately show ?thesis using assms(3) by simp
qed

lemma stage_member_upd:
  "stage_member ud m fs = fs(staging_path ud m \<mapsto> member_bytes m)"
  by (simp add: stage_member_def write_file_def staging_path_def)

lemma handle_zip_members_skip:
  "\<not> retained m \<Longrightarrow>
     handle_zip_members E mz ud (m # ms) fs acc = handle_zip_members E mz ud ms fs acc"
  by (auto simp: retained_def Let_def)

lemma handle_zip_members_unreadable:
  "retained m \<Longrightarrow> member_data m = Inl e \<Longrightarrow>
     handle_zip_members E mz ud (m # ms) fs acc = (fs, Inl e)"
  by (simp add: retained_def Let_def)

lemma handle_zip_members_keep:
  "retained m \<Longrightarrow> member_data m = Inr b \<Longrightarrow>
     handle_zip_members E mz ud (m # ms) fs acc =
       handle_zip_members E mz ud ms (stage_member ud m fs) (acc @ [member_meta E mz ud m])"
  by (simp add: retained_def Let_def stage_member_def member_meta_def staging_path_def
      member_bytes_def)

lemma handle_zip_members_success:
  assumes "\<forall>m\<in>set ms. retained m \<longrightarrow> readable m"
  shows "handle_zip_members E mz ud ms fs acc =
           (fold (stage_member ud) (filter retained ms) fs,
            Inr (acc @ map (member_meta E mz ud) (filter retained ms)))"
  using assms
proof (induction ms arbitrary: fs acc)
  case Nil
  then show ?case by simp
next
  case (Cons m ms)
  have ih: "\<And>fs acc. handle_zip_members E mz ud ms fs acc =
           (fold (stage_member ud) (filter retained ms) fs,
            Inr (acc @ map (member_meta E mz ud) (filter retained ms)))"
    using Cons by simp
  show ?case
  proof (cases "retained m")
    case False
    then show ?thesis by (simp add: handle_zip_members_skip ih del: handle_zip_members.simps)
  next
    case True
    with Cons.prems obtain b where b: "member_data m = Inr b"
      by (auto simp: readable_def split: sum.splits)
    show ?thesis using True
      by (simp add: handle_zip_members_keep [OF True b] ih del: handle_zip_members.simps)
  qed
qed

lemma handle_zip_members_Inr_readable:
  assumes "snd (handle_zip_members E mz ud ms fs acc) = Inr metas"
  shows "\<forall>m\<in>set ms. retained m \<longrightarrow> readable m"
  using assms
proof (induction ms arbitrary: fs acc)
  case Nil
  then show ?case by simp
next
  case (Cons m ms)
  show ?case
  proof (cases "retained m")
    case False
    with Cons.prems have "snd (handle_zip_members E mz ud ms fs acc) = Inr metas"
      by (simp add: handle_zip_members_skip del: handle_zip_members.simps)
    from Cons.IH [OF this] False show ?thesis by simp
  next
    case True
    show ?thesis
    proof (cases "member_data m")
      case (Inl e)
      with Cons.prems True show ?thesis
        by (simp add: handle_zip_members_unreadable del: handle_zip_members.simps)
    next
      case (Inr b)
      then have r: "readable m" by (simp add: readable_def)
      from Cons.prems have "snd (handle_zip_members E mz ud ms (stage_member ud m fs)
                                   (acc @ [member_meta E mz ud m])) = Inr metas"
        by (simp add: handle_zip_members_keep [OF True Inr] del: handle_zip_members.simps)
      from Cons.IH [OF this] r show ?thesis by simp
    qed
  qed
qed

lemma handle_zip_members_keys:
  assumes "meta_url m1 = meta_url m2" "map meta_key a1 = map meta_key a2"
  shows "map_sum id (map meta_key) (snd (handle_zip_members E m1 ud1 ms fs1 a1))
       = map_sum id (map meta_key) (snd (handle_zip_members E m2 ud2 ms fs2 a2))"
  using assms(2)
proof (induction ms arbitrary: fs1 fs2 a1 a2)
  case Nil
  then show ?case by simp
next
  case (Cons m ms)
  show ?case
  proof (cases "retained m")
    case False
    then show ?thesis using Cons
      by (simp add: handle_zip_members_skip del: handle_zip_members.simps)
  next
    case True
    show ?thesis
    proof (cases "member_data m")
      case (Inl e)
      then show ?thesis using True
        by (simp add: handle_zip_members_unreadable del: handle_zip_members.simps)
    next
      case (Inr b)
      have "meta_key (member_meta E m1 ud1 m) = meta_key (member_meta E m2 ud2 m)"
        using assms(1) by (simp add: meta_key_def member_meta_def build_meta_def)
      then have k: "map meta_key (a1 @ [member_meta E m1 ud1 m]) = map meta_key (a2 @ [member_meta E m2 ud2 m])"
        using Cons.prems by simp
      show ?thesis
        unfolding handle_zip_members_keep [OF True Inr] by (rule Cons.IH [OF k])
    qed
  qed
qed

lemma member_meta_timestamp:
  "member_meta E (mz\<lparr>meta_downloaded_at := t\<rparr>) ud m = (member_meta E mz ud m)\<lparr>meta_downloaded_at := t\<rparr>"
  by (simp add: member_meta_def build_meta_def)

lemma handle_zip_members_timestamp:
  "snd (handle_zip_members E (mz\<lparr>meta_downloaded_at := t\<rparr>) ud ms fs2
          (map (\<lambda>m. m\<lparr>meta_downloaded_at := t\<rparr>) acc))
   = map_sum id (map (\<lambda>m. m\<lparr>meta_downloaded_at := t\<rparr>)) (snd (handle_zip_members E mz ud ms fs1 acc))"
proof (induction ms arbitrary: fs1 fs2 acc)
  case Nil
  then show ?case by simp
next
  case (Cons m ms)
  show ?case
  proof (cases "retained m")
    case False
    then show ?thesis using Cons
      by (simp add: handle_zip_members_skip del: handle_zip_members.simps)
  next
    case True
    show ?thesis
    proof (cases "member_data m")
      case (Inl e)
      then show ?thesis using True
        by (simp add: handle_zip_members_unreadable del: handle_zip_members.simps)
    next
      case (Inr b)
      have a: "map (\<lambda>m. m\<lparr>meta_downloaded_at := t\<rparr>) acc @ [member_meta E (mz\<lparr>meta_downloaded_at := t\<rparr>) ud m]
            = map (\<lambda>m. m\<lparr>meta_downloaded_at := t\<rparr>) (acc @ [member_meta E mz ud m])"
        by (simp add: member_meta_timestamp)
      show ?thesis
        unfolding handle_zip_members_keep [OF True Inr] a by (rule Cons.IH)
    qed
  qed
qed

lemma fold_stage_other:
  assumes "\<forall>z\<in>set zs. staging_path ud z \<noteq> p"
  shows "fold (stage_member ud) zs fs p = fs p"
  using assms by (induction zs arbitrary: fs) (auto simp: stage_member_upd)

lemma fold_stage_last:
  assumes "\<forall>z\<in>set zs. staging_path ud z \<noteq> staging_path ud b"
  shows "fold (stage_member ud) (xs @ b # zs) fs (staging_path ud b) = Some (member_bytes b)"
  using fold_stage_other [OF assms] by (simp add: stage_member_upd)

text \<open>
  Claim C7. Archive expansion is deterministic as a two-run property. Two expansions of the
  same archive bytes under the same parent URL (whatever the download directory, the file
  system and the other fields of the parent record) fail alike or give member lists with
  the same synthetic URLs and checksums; when the parent records differ only in the
  download timestamp, the member records differ only in that timestamp. A member's
  synthetic URL is the parent URL, \<^verbatim>\<open>#\<close> and the member's inner path, and its checksum is
  the digest of its bytes.
\<close>

theorem handle_zip_deterministic:
  fixes E :: env and m1 m2 :: meta and zip_content :: bytes
  assumes same_url: "meta_url m1 = meta_url m2"
  shows "map_sum id (map meta_key) (snd (handle_zip E m1 zip_content dir1 fs1))
           = map_sum id (map meta_key) (snd (handle_zip E m2 zip_content dir2 fs2))
       \<and> snd (handle_zip E (m1\<lparr>meta_downloaded_at := t\<rparr>) zip_content dir1 fs2)
           = map_sum id (map (\<lambda>m. m\<lparr>meta_downloaded_at := t\<rparr>))
               (snd (handle_zip E m1 zip_content dir1 fs1))
       \<and> (\<forall>members metas.
             zip_infolist E zip_content = Inr members
             \<and> snd (handle_zip E m1 zip_content dir1 fs1) = Inr metas \<longrightarrow>
               map meta_url metas
                 = map (\<lambda>x. meta_url m1 @ ''#'' @ member_filename x) (filter retained members)
               \<and> map meta_checksum metas
                 = map (\<lambda>x. sha256_hex E (member_bytes x)) (filter retained members))"
proof (intro conjI allI impI)
  show "map_sum id (map meta_key) (snd (handle_zip E m1 zip_content dir1 fs1))
           = map_sum id (map meta_key) (snd (handle_zip E m2 zip_content dir2 fs2))"
  proof (cases "zip_infolist E zip_content")
    case (Inl e)
    then show ?thesis by (simp add: handle_zip_def)
  next
    case (Inr members)
    then show ?thesis
      using handle_zip_members_keys [OF same_url, where ?a1.0 = "[]" and ?a2.0 = "[]" and E = E
          and ms = members and ?fs1.0 = fs1 and ?fs2.0 = fs2]
      by (simp add: handle_zip_def Let_def)
  qed
next
  show "snd (handle_zip E (m1\<lparr>meta_downloaded_at := t\<rparr>) zip_content dir1 fs2)
           = map_sum id (map (\<lambda>m. m\<lparr>meta_downloaded_at := t\<rparr>))
               (snd (handle_zip E m1 zip_content dir1 fs1))"
  proof (cases "zip_infolist E zip_content")
    case (Inl e)
    then show ?thesis by (simp add: handle_zip_def)
  next
    case (Inr members)
    then show ?thesis
      using handle_zip_members_timestamp [where E = E and mz = m1 and t = t and ms = members
          and ?fs2.0 = fs2 and acc = "[]" and ?fs1.0 = fs1]
      by (simp add: handle_zip_def Let_def)
  qed
next
  fix members metas
  assume h: "zip_infolist E zip_content = Inr members
             \<and> snd (handle_zip E m1 zip_content dir1 fs1) = Inr metas"
  let ?ud = "unzip_dir_of dir1 m1"
  from h have z: "zip_infolist E zip_content = Inr members"
    and r: "snd (handle_zip E m1 zip_content dir1 fs1) = Inr metas" by simp_all
  from r have s: "snd (handle_zip_members E m1 ?ud members fs1 []) = Inr metas"
    by (simp add: handle_zip_def Let_def unzip_dir_of_def z)
  from handle_zip_members_Inr_readable [OF s]
  have "handle_zip_members E m1 ?ud members fs1 [] =
          (fold (stage_member ?ud) (filter retained members) fs1,
           Inr ([] @ map (member_meta E m1 ?ud) (filter retained members)))"
    by (rule handle_zip_members_success)
  with s have metas: "metas = map (member_meta E m1 ?ud) (filter retained members)" by simp
  show "map meta_url metas
          = map (\<lambda>x. meta_url m1 @ ''#'' @ member_filename x) (filter retained members)"
    unfolding metas by (simp add: member_meta_def build_meta_def)
  show "map meta_checksum metas
          = map (\<lambda>x. sha256_hex E (member_bytes x)) (filter retained members)"
    unfolding metas by (simp add: member_meta_def build_meta_def get_file_checksum_def)
qed

text \<open>
  Claim C10. When an archive holds two retained members \<open>a\<close> (earlier) and \<open>b\<close> (the
  last retained one of that base name) whose inner paths differ and whose base names are
  equal, both records carry the same staging path, the unzip directory joined with the
  base name; after the expansion the file there holds the bytes of \<open>b\<close>, while the two
  records have distinct synthetic URLs and each its own checksum.
\<close>

theorem handle_zip_basename_collision:
  fixes E :: env and meta_zip :: meta and a b :: zip_member
  assumes archive: "zip_infolist E zip_content = Inr (xs @ a # ys @ b # zs)"
    and all_readable: "\<forall>m\<in>set (xs @ a # ys @ b # zs). retained m \<longrightarrow> readable m"
    and a: "retained a" and b: "retained b"
    and paths_differ: "member_filename a \<noteq> member_filename b"
    and same_base: "path_name (member_filename a) = path_name (member_filename b)"
    and b_last: "\<forall>z\<in>set zs. retained z \<longrightarrow>
                   path_name (member_filename z) \<noteq> path_name (member_filename b)"
  shows "\<exists>fs' metas ra rb.
           handle_zip E meta_zip zip_content download_dir fs = (fs', Inr metas)
         \<and> length (filter retained (xs @ a # ys)) < length metas
         \<and> ra = metas ! length (filter retained xs)
         \<and> rb = metas ! length (filter retained (xs @ a # ys))
         \<and> meta_url ra = meta_url meta_zip @ ''#'' @ member_filename a
         \<and> meta_url rb = meta_url meta_zip @ ''#'' @ member_filename b
         \<and> meta_url ra \<noteq> meta_url rb
         \<and> meta_checksum ra = sha256_hex E (member_bytes a)
         \<and> meta_checksum rb = sha256_hex E (member_bytes b)
         \<and> meta_local_path ra = meta_local_path rb
         \<and> meta_local_path rb =
             path_str (os_path_join
               (os_path_join download_dir (''unzipped_'' @ path_stem (meta_local_path meta_zip)))
               (path_name (member_filename b)))
         \<and> fs' (meta_local_path ra) = Some (member_bytes b)"
proof -
  let ?ud = "unzip_dir_of download_dir meta_zip"
  let ?ms = "xs @ a # ys @ b # zs"
  let ?mm = "member_meta E meta_zip ?ud"
  define fs' where "fs' = fold (stage_member ?ud) (filter retained ?ms) fs"
  define metas where "metas = map ?mm (filter retained ?ms)"
  have run: "handle_zip E meta_zip zip_content download_dir fs = (fs', Inr metas)"
    using handle_zip_members_success [OF all_readable, of E meta_zip ?ud fs "[]"]
    by (simp add: handle_zip_def Let_def archive unzip_dir_of_def fs'_def metas_def)
  have fa: "filter retained ?ms = filter retained xs @ a # filter retained ys @ b # filter retained zs"
    using a b by simp
  have fb: "filter retained ?ms = filter retained (xs @ a # ys) @ b # filter retained zs"
    using a b by simp
  have ra: "?mm a = metas ! length (filter retained xs)"
    unfolding metas_def fa by (simp add: nth_append)
  have rb: "?mm b = metas ! length (filter retained (xs @ a # ys))"
    unfolding metas_def fb map_append by (simp add: nth_append del: filter_append filter.simps)
  have len: "length (filter retained (xs @ a # ys)) < length metas"
    unfolding metas_def fb by (simp del: filter_append filter.simps)
  have lpa: "meta_local_path (?mm a) = staging_path ?ud a"
    and lpb: "meta_local_path (?mm b) = staging_path ?ud b"
    by (simp_all add: member_meta_def build_meta_def)
  have same: "staging_path ?ud a = staging_path ?ud b"
    by (simp add: staging_path_def same_base)
  have later: "\<forall>z\<in>set (filter retained zs). staging_path ?ud z \<noteq> staging_path ?ud b"
  proof
    fix z assume z: "z \<in> set (filter retained zs)"
    then have rz: "retained z" and "z \<in> set zs" by simp_all
    with b_last have "path_name (member_filename z) \<noteq> path_name (member_filename b)" by blast
    then show "staging_path ?ud z \<noteq> staging_path ?ud b"
      using staging_path_inj [OF rz b] by blast
  qed
  have staged: "fs' (staging_path ?ud b) = Some (member_bytes b)"
    unfolding fs'_def fb by (rule fold_stage_last [OF later])
  have urla: "meta_url (?mm a) = meta_url meta_zip @ ''#'' @ member_filename a"
    and urlb: "meta_url (?mm b) = meta_url meta_zip @ ''#'' @ member_filename b"
    by (simp_all add: member_meta_def build_meta_def)
  have suma: "meta_checksum (?mm a) = sha256_hex E (member_bytes a)"
    and sumb: "meta_checksum (?mm b) = sha256_hex E (member_bytes b)"
    by (simp_all add: member_meta_def build_meta_def get_file_checksum_def)
  have stage: "staging_path ?ud b = path_str (os_path_join
               (os_path_join download_dir (''unzipped_'' @ path_stem (meta_local_path meta_zip)))
               (path_name (member_filename b)))"
    by (simp add: staging_path_def unzip_dir_of_def)
  show ?thesis
  proof (rule exI [of _ fs'], rule exI [of _ metas], rule exI [of _ "?mm a"],
      rule exI [of _ "?mm b"], intro conjI)
    show "handle_zip E meta_zip zip_content download_dir fs = (fs', Inr metas)" by (rule run)
    show "length (filter retained (xs @ a # ys)) < length metas" by (rule len)
    show "?mm a = metas ! length (filter retained xs)" by (rule ra)
    show "?mm b = metas ! length (filter retained (xs @ a # ys))" by (rule rb)
    show "meta_url (?mm a) = meta_url meta_zip @ ''#'' @ member_filename a" by (rule urla)
    show "meta_url (?mm b) = meta_url meta_zip @ ''#'' @ member_filename b" by (rule urlb)
    show "meta_url (?mm a) \<noteq> meta_url (?mm b)" unfolding urla urlb using paths_differ by simp
    show "meta_checksum (?mm a) = sha256_hex E (member_bytes a)" by (rule suma)
    show "meta_checksum (?mm b) = sha256_hex E (member_bytes b)" by (rule sumb)
    show "meta_local_path (?mm a) = meta_local_path (?mm b)" unfolding lpa lpb by (rule same)
    show "meta_local_path (?mm b) = path_str (os_path_join
               (os_path_join download_dir (''unzipped_'' @ path_stem (meta_local_path meta_zip)))
               (path_name (member_filename b)))" unfolding lpb by (rule stage)
    show "fs' (meta_local_path (?mm a)) = Some (member_bytes b)"
      unfolding lpa same by (rule staged)
  qed
qed

section \<open>Concrete runs of the extraction agent, and the download loop\<close>

lemmas path_eval = path_name_def path_parts_def splitroot_def path_suffix_def name_suffix_def
  rfind_def path_stem_def name_stem_def path_str_def os_path_join_def os_path_basename_def
  lower_def lower_char_def

lemma sample_names:
  "path_name ''a/report.pdf'' = ''report.pdf''"
  "path_name ''b/report.pdf'' = ''report.pdf''"
  "path_name ''inner.zip'' = ''inner.zip''"
  "path_name ''notes.docx'' = ''notes.docx''"
  by (simp_all add: path_eval)

lemma sample_suffixes:
  "lower (path_suffix ''report.pdf'') = ''.pdf''"
  "lower (path_suffix ''inner.zip'') = ''.zip''"
  "lower (path_suffix ''notes.docx'') = ''.docx''"
  "lower (path_suffix ''table.csv'') = ''.csv''"
  "lower (path_suffix ''pack.zip'') = ''.zip''"
  "lower (path_suffix ''guide.pdf'') = ''.pdf''"
  by (simp_all add: path_eval)

lemma sample_paths:
  "path_stem ''data/raw/pack.zip'' = ''pack''"
  "os_path_join ''data/raw'' ''unzipped_pack'' = ''data/raw/unzipped_pack''"
  "os_path_join ''tmp'' ''unzipped_pack'' = ''tmp/unzipped_pack''"
  "os_path_join ''data/raw/unzipped_pack'' ''report.pdf'' = ''data/raw/unzipped_pack/report.pdf''"
  "os_path_join ''data/raw/unzipped_pack'' ''inner.zip'' = ''data/raw/unzipped_pack/inner.zip''"
  "os_path_join ''tmp/unzipped_pack'' ''report.pdf'' = ''tmp/unzipped_pack/report.pdf''"
  "os_path_join ''tmp/unzipped_pack'' ''inner.zip'' = ''tmp/unzipped_pack/inner.zip''"
  "os_path_join ''data/raw'' ''table.csv'' = ''data/raw/table.csv''"
  "os_path_join ''data/raw'' ''pack.zip'' = ''data/raw/pack.zip''"
  "os_path_join ''data/raw'' ''guide.pdf'' = ''data/raw/guide.pdf''"
  "path_str ''data/raw/unzipped_pack/report.pdf'' = ''data/raw/unzipped_pack/report.pdf''"
  "path_str ''data/raw/unzipped_pack/inner.zip'' = ''data/raw/unzipped_pack/inner.zip''"
  "path_str ''tmp/unzipped_pack/report.pdf'' = ''tmp/unzipped_pack/report.pdf''"
  "path_str ''tmp/unzipped_pack/inner.zip'' = ''tmp/unzipped_pack/inner.zip''"
  "path_str ''data/raw/table.csv'' = ''data/raw/table.csv''"
  "path_str ''data/raw/pack.zip'' = ''data/raw/pack.zip''"
  "path_str ''data/raw/guide.pdf'' = ''data/raw/guide.pdf''"
  "os_path_basename ''/d/table.csv'' = ''table.csv''"
  "os_path_basename ''/d/pack.zip'' = ''pack.zip''"
  "os_path_basename ''/d/guide.pdf'' = ''guide.pdf''"
  by (simp_all add: path_eval)

lemmas sample_eval = handle_zip_def sample_members_def is_dir_def SUPPORTED_EXTENSIONS_def
  Let_def sample_env_def build_meta_def get_file_checksum_def guess_mime_type_from_ext_def
  write_file_def sample_parent_def sample_names sample_suffixes sample_paths

text \<open>
  Claim C5. Archive expansion skips directory entries and drops members outside the
  supported set; the docstring of \<^verbatim>\<open>_handle_zip\<close> gives that set as pdf, xls, xlsx, csv.
  The loop tests against \<^verbatim>\<open>SUPPORTED_EXTENSIONS\<close>, which also lists \<^verbatim>\<open>.zip\<close>: on the
  archive of the concrete environment (a PDF, a nested archive, a directory entry, a Word
  document, a second PDF) the directory and the Word document are dropped, and the nested
  archive \<^verbatim>\<open>inner.zip\<close> is retained with a record of its own.
\<close>

theorem handle_zip_retains_nested_archive:
  "map_sum id (map meta_filename)
     (snd (handle_zip (sample_env True) (sample_parent 5) ''PK-outer'' ''data/raw'' Map.empty))
   = Inr [''report.pdf'', ''inner.zip'', ''report.pdf'']"
  by (simp add: sample_eval)

text \<open>The theorem of claim C7 on the archive of the concrete environment.\<close>

theorem handle_zip_deterministic_witness:
  "map_sum id (map meta_key)
     (snd (handle_zip (sample_env True) (sample_parent 5) ''PK-outer'' ''data/raw'' Map.empty))
   = map_sum id (map meta_key)
       (snd (handle_zip (sample_env True) (sample_parent 9) ''PK-outer'' ''tmp''
          [''tmp/unzipped_pack/report.pdf'' \<mapsto> ''old'']))
   \<and> map_sum id (map meta_downloaded_at)
       (snd (handle_zip (sample_env True) (sample_parent 9) ''PK-outer'' ''data/raw'' Map.empty))
     = Inr [9, 9, 9]"
  using handle_zip_deterministic [where E = "sample_env True" and ?m1.0 = "sample_parent 5"
      and ?m2.0 = "sample_parent 9" and zip_content = "''PK-outer''" and ?dir1.0 = "''data/raw''"
      and ?dir2.0 = "''tmp''" and ?fs1.0 = Map.empty
      and ?fs2.0 = "[''tmp/unzipped_pack/report.pdf'' \<mapsto> ''old'']" and t = 9]
  by (simp add: sample_eval)

text \<open>The theorem of claim C10 on the two entries named \<^verbatim>\<open>report.pdf\<close>.\<close>

theorem handle_zip_basename_collision_witness:
  "fst (handle_zip (sample_env True) (sample_parent 5) ''PK-outer'' ''data/raw'' Map.empty)
     ''data/raw/unzipped_pack/report.pdf'' = Some ''second''"
proof -
  let ?a = "\<lparr>member_filename = ''a/report.pdf'', member_data = Inr ''first''\<rparr>"
  let ?b = "\<lparr>member_filename = ''b/report.pdf'', member_data = Inr ''second''\<rparr>"
  let ?ys = "[\<lparr>member_filename = ''inner.zip'', member_data = Inr ''PK-inner''\<rparr>,
      \<lparr>member_filename = ''b/'', member_data = Inr []\<rparr>,
      \<lparr>member_filename = ''notes.docx'', member_data = Inr ''word''\<rparr>]"
  have h1: "zip_infolist (sample_env True) ''PK-outer'' = Inr ([] @ ?a # ?ys @ ?b # [])"
    by (simp add: sample_env_def sample_members_def)
  have h2: "\<forall>m\<in>set ([] @ ?a # ?ys @ ?b # []). retained m \<longrightarrow> readable m"
    by (simp add: readable_def)
  have h3: "retained ?a" by (simp add: retained_def sample_eval)
  have h4: "retained ?b" by (simp add: retained_def sample_eval)
  have h5: "member_filename ?a \<noteq> member_filename ?b" by simp
  have h6: "path_name (member_filename ?a) = path_name (member_filename ?b)"
    by (simp add: sample_names)
  have h7: "\<forall>z\<in>set []. retained z \<longrightarrow>
              path_name (member_filename z) \<noteq> path_name (member_filename ?b)" by simp
  from handle_zip_basename_collision [OF h1 h2 h3 h4 h5 h6 h7,
      of "sample_parent 5" "''data/raw''" Map.empty]
  show ?thesis
    by (elim exE conjE) (simp add: sample_parent_def sample_names sample_paths member_bytes_def)
qed

lemma collect_metadata_append:
  "collect_metadata E src dir i (xs @ ys) fs acc =
     (case collect_metadata E src dir i xs fs acc of
        (fs', Inl e) \<Rightarrow> (fs', Inl e)
      | (fs', Inr acc') \<Rightarrow> collect_metadata E src dir (i + length xs) ys fs' acc')"
proof (induction xs arbitrary: i fs acc)
  case Nil
  then show ?case by simp
next
  case (Cons x xs)
  show ?case
  proof (cases "download_one E src dir i x fs")
    case (Pair fs1 r)
    then show ?thesis using Cons [of "Suc i"] by (cases r) (simp_all split: prod.splits sum.splits)
  qed
qed

lemma download_one_fetch_fails:
  "http_get E i (link_url d) = Inl e \<Longrightarrow> download_one E src dir i d fs = (fs, Inl e)"
  by (simp add: download_one_def download_binary_def)

text \<open>
  Claim C4, as the code has it. The loop of \<^verbatim>\<open>download_and_collect_metadata\<close> has no
  exception handler. When the fetch of a candidate fails, the function raises: it returns
  no metadata record at all. When the candidates before the failing one were processed
  without error, the exception raised is that fetch failure, and the file system is left
  as those earlier candidates wrote it (the later candidates are never fetched).
\<close>

theorem failed_fetch_aborts_batch:
  fixes E :: env and pre post :: "link list" and d :: link
  assumes known: "AUTHORITY_CONFIG authority_code = Some cfg"
    and listing: "scraped_links E authority_code = Inr (pre @ d # post)"
    and fetch_fails: "http_get E (length pre) (link_url d) = Inl e"
  shows "(\<exists>fs' e'. download_and_collect_metadata E authority_code download_dir fs = (fs', Inl e'))
       \<and> (\<forall>fs' ms. collect_metadata E (source_label cfg) download_dir 0 pre fs [] = (fs', Inr ms)
             \<longrightarrow> download_and_collect_metadata E authority_code download_dir fs = (fs', Inl e))"
proof -
  let ?c = "collect_metadata E (source_label cfg) download_dir"
  have run: "download_and_collect_metadata E authority_code download_dir fs = ?c 0 (pre @ d # post) fs []"
    by (simp add: download_and_collect_metadata_def known listing extract_document_links_def)
  have step: "\<And>fs' ms. ?c (length pre) (d # post) fs' ms = (fs', Inl e)"
    by (simp add: download_one_fetch_fails [OF fetch_fails])
  obtain fs1 r where p: "?c 0 pre fs [] = (fs1, r)" by (cases "?c 0 pre fs []")
  have app: "?c 0 (pre @ d # post) fs [] =
       (case r of Inl e1 \<Rightarrow> (fs1, Inl e1) | Inr acc' \<Rightarrow> (fs1, Inl e))"
    unfolding collect_metadata_append [of E _ _ 0 pre "d # post"] p
    by (cases r) (simp_all add: step del: collect_metadata.simps)
  show ?thesis unfolding run app using p by (cases r) auto
qed

theorem failed_fetch_aborts_batch_witness:
  "download_and_collect_metadata (sample_env False) ''BCL'' ''data/raw'' Map.empty
   = ([''data/raw/table.csv'' \<mapsto> ''a,b''], Inl RequestError)"
proof -
  let ?pre = "[\<lparr>link_url = ''https://h/d/table.csv'', link_title = ''Table''\<rparr>]"
  let ?d = "\<lparr>link_url = ''https://h/d/pack.zip'', link_title = ''Pack''\<rparr>"
  let ?post = "[\<lparr>link_url = ''https://h/d/guide.pdf'', link_title = ''Guide''\<rparr>]"
  obtain cfg where k: "AUTHORITY_CONFIG ''BCL'' = Some cfg" and sl: "source_label cfg = ''BCL_AnaCredit''"
    by (simp add: AUTHORITY_CONFIG_def)
  have l: "scraped_links (sample_env False) ''BCL'' = Inr (?pre @ ?d # ?post)"
    by (simp add: sample_env_def)
  have f: "http_get (sample_env False) (length ?pre) (link_url ?d) = Inl RequestError"
    by (simp add: sample_env_def)
  have c: "collect_metadata (sample_env False) (source_label cfg) ''data/raw'' 0 ?pre Map.empty []
        = ([''data/raw/table.csv'' \<mapsto> ''a,b''],
           Inr [\<lparr>meta_source = ''BCL_AnaCredit'', meta_title = ''Table'',
              meta_url = ''https://h/d/table.csv'', meta_local_path = ''data/raw/table.csv'',
              meta_filename = ''table.csv'', meta_filesize_bytes = 3,
              meta_checksum = ''sha256:a,b'', meta_mime_type = ''text/csv'',
              meta_downloaded_at = 100\<rparr>])"
    by (simp add: sl download_one_def download_binary_def sample_eval)
  from failed_fetch_aborts_batch [OF k l f, of "''data/raw''" Map.empty] c
  show ?thesis by blast
qed

text \<open>
  Claim C4 as stated fails: in a batch of three candidates whose second fetch fails, the
  orchestrator raises the request error instead of returning the other two records.
\<close>

theorem partial_failure_isolation_counterexample:
  "http_get (sample_env False) 1 ''https://h/d/pack.zip'' = Inl RequestError
   \<and> snd (download_and_collect_metadata (sample_env False) ''BCL'' ''data/raw'' Map.empty)
       = Inl RequestError"
  by (simp add: download_and_collect_metadata_def extract_document_links_def AUTHORITY_CONFIG_def
      download_one_def download_binary_def sample_eval)

section \<open>The stages: empty extraction, notification, failure of a later stage\<close>

lemma strip_empty_iff: "strip t = [] \<longleftrightarrow> (\<forall>c\<in>set t. isspace c)"
proof
  assume "strip t = []"
  then have "dropWhile isspace (rev (dropWhile isspace t)) = []" by (simp add: strip_def)
  then have a: "\<forall>c\<in>set (dropWhile isspace t). isspace c" by (simp add: dropWhile_eq_Nil_conv)
  have "dropWhile isspace t = []"
  proof (rule ccontr)
    assume ne: "dropWhile isspace t \<noteq> []"
    then have "\<not> isspace (hd (dropWhile isspace t))" by (rule hd_dropWhile)
    moreover have "hd (dropWhile isspace t) \<in> set (dropWhile isspace t)" using ne by (rule hd_in_set)
    ultimately show False using a by blast
  qed
  then show "\<forall>c\<in>set t. isspace c" by (simp add: dropWhile_eq_Nil_conv)
next
  assume "\<forall>c\<in>set t. isspace c"
  then have d: "dropWhile isspace t = []" by (simp add: dropWhile_eq_Nil_conv)
  show "strip t = []" unfolding strip_def d by simp
qed

text \<open>
  Claim C8. When text extraction yields no content, the text stage stores nothing and
  returns without an exception: for every extraction result that is empty or consists of
  white space only, and for every file whose extension has no extractor (the result is
  then the empty text), \<^verbatim>\<open>process_document_for_text\<close> leaves the state as it was.
\<close>

theorem empty_extraction_stores_nothing:
  fixes S :: services and s :: state and doc :: document
  shows "(\<forall>tx. extract_text_for_document_file S (files s) (local_path doc) = Inr tx
             \<and> (\<forall>c\<in>set tx. isspace c)
           \<longrightarrow> process_document_for_text S s doc lang = (s, None))
       \<and> (lower (path_suffix (local_path doc)) \<notin> set [''.pdf'', ''.xls'', ''.xlsx'', ''.csv'']
           \<longrightarrow> extract_text_for_document_file S (files s) (local_path doc) = Inr []
             \<and> process_document_for_text S s doc lang = (s, None))"
proof (intro conjI allI impI)
  fix tx
  assume "extract_text_for_document_file S (files s) (local_path doc) = Inr tx
             \<and> (\<forall>c\<in>set tx. isspace c)"
  then have e: "extract_text_for_document_file S (files s) (local_path doc) = Inr tx"
    and "strip tx = []" by (simp_all add: strip_empty_iff)
  then show "process_document_for_text S s doc lang = (s, None)"
    by (simp add: process_document_for_text_def Let_def)
next
  assume u: "lower (path_suffix (local_path doc)) \<notin> set [''.pdf'', ''.xls'', ''.xlsx'', ''.csv'']"
  then show e: "extract_text_for_document_file S (files s) (local_path doc) = Inr []"
    by (simp add: extract_text_for_document_file_def Let_def)
  have "strip [] = []" by (simp add: strip_def)
  then show "process_document_for_text S s doc lang = (s, None)"
    by (simp add: process_document_for_text_def Let_def e)
qed

lemma match_lines_resolve:
  assumes "list_all (\<lambda>m. find (\<lambda>kc. keyword_id kc = match_keyword_id m) kcs \<noteq> None) ms"
  shows "\<exists>ls. match_lines S kcs ms = Inr ls"
  using assms by (induction ms) auto

lemma match_lines_dangling:
  assumes "\<not> list_all (\<lambda>m. find (\<lambda>kc. keyword_id kc = match_keyword_id m) kcs \<noteq> None) ms"
  shows "match_lines S kcs ms = Inl AttributeError"
  using assms
proof (induction ms)
  case Nil
  then show ?case by simp
next
  case (Cons m ms)
  show ?case
  proof (cases "find (\<lambda>kc. keyword_id kc = match_keyword_id m) kcs")
    case None
    then show ?thesis by simp
  next
    case (Some kw)
    with Cons.prems have "\<not> list_all (\<lambda>m. find (\<lambda>kc. keyword_id kc = match_keyword_id m) kcs \<noteq> None) ms"
      by simp
    then have "match_lines S kcs ms = Inl AttributeError" by (rule Cons.IH)
    then show ?thesis using Some by simp
  qed
qed

text \<open>
  Claim C9, as the code has it. \<^verbatim>\<open>send_email_notification\<close> hands a message to the SMTP
  server if and only if the SMTP settings are complete, the document row exists, the
  number of keyword-match rows of the document is at least the minimum, and each of these
  rows names an existing keyword row; it then writes one log row (\<^verbatim>\<open>SENT\<close> or
  \<^verbatim>\<open>ERROR\<close>) and raises nothing. In every other case nothing is sent, nothing is logged
  and the state is unchanged; the function then returns normally, except that a match row
  without keyword row makes it raise while the message is built. With a count below the
  minimum it always returns normally with the state unchanged.
\<close>

theorem notification_attempted_iff:
  fixes S :: services and s :: state and document_id :: nat and min_keywords :: int
  defines "r \<equiv> send_email_notification S s document_id min_keywords"
  defines "due \<equiv> smtp_configured S \<and> document_stored s document_id
                    \<and> min_keywords \<le> int (keyword_match_count s document_id)"
  defines "fire \<equiv> due \<and> document_keywords_resolve s document_id"
  shows "(smtp_attempts (fst r) \<noteq> smtp_attempts s \<longleftrightarrow> fire)
       \<and> (if fire
          then snd r = None
             \<and> length (smtp_attempts (fst r)) = Suc (length (smtp_attempts s))
             \<and> length (notification_logs (fst r)) = Suc (length (notification_logs s))
          else fst r = s \<and> snd r = (if due then Some AttributeError else None))
       \<and> (int (keyword_match_count s document_id) < min_keywords \<longrightarrow> r = (s, None))"
proof (cases due)
  case False
  then have "r = (s, None)"
    by (auto simp: r_def due_def send_email_notification_def document_stored_def
        keyword_match_count_def Let_def split: option.splits)
  then show ?thesis using False by (auto simp: fire_def due_def)
next
  case True
  then have c: "smtp_configured S"
    and k: "\<not> int (length (filter (\<lambda>m. match_document_id m = document_id) (keyword_matches s)))
              < min_keywords"
    by (simp_all add: due_def keyword_match_count_def)
  from True obtain doc where d: "find (\<lambda>d. doc_id d = document_id) (documents s) = Some doc"
    by (auto simp: due_def document_stored_def)
  have nk: "\<not> int (keyword_match_count s document_id) < min_keywords"
    using True by (simp add: due_def)
  show ?thesis
  proof (cases "document_keywords_resolve s document_id")
    case True
    then obtain ls
      where l: "match_lines S (keyword_configs s)
                  (filter (\<lambda>m. match_document_id m = document_id) (keyword_matches s)) = Inr ls"
      using match_lines_resolve unfolding document_keywords_resolve_def by blast
    have "snd r = None \<and> length (smtp_attempts (fst r)) = Suc (length (smtp_attempts s))
        \<and> length (notification_logs (fst r)) = Suc (length (notification_logs s))"
      by (simp add: r_def send_email_notification_def c d k l Let_def build_notification_body_def
          log_notification_def split: option.splits)
    then show ?thesis using True \<open>due\<close> nk by (auto simp: fire_def)
  next
    case False
    then have l: "match_lines S (keyword_configs s)
                  (filter (\<lambda>m. match_document_id m = document_id) (keyword_matches s))
                  = Inl AttributeError"
      unfolding document_keywords_resolve_def by (rule match_lines_dangling)
    have "r = (s, Some AttributeError)"
      by (simp add: r_def send_email_notification_def c d k l Let_def build_notification_body_def)
    then show ?thesis using False \<open>due\<close> nk by (simp add: fire_def)
  qed
qed

text \<open>
  Claim C9 as stated fails: with one keyword match recorded, a minimum of one and no SMTP
  host configured, no notification is attempted.
\<close>

theorem notification_iff_count_counterexample:
  "1 \<le> int (keyword_match_count (sample_state [sample_match]) 1)
   \<and> send_email_notification (sample_services True False) (sample_state [sample_match]) 1 1
       = (sample_state [sample_match], None)"
  by (simp add: keyword_match_count_def sample_state_def sample_match_def
      send_email_notification_def smtp_configured_def sample_services_def truthy_def)

lemma stage_paths:
  "lower (path_suffix ''data/raw/one.pdf'') = ''.pdf''"
  "lower (path_suffix ''data/raw/two.pdf'') = ''.pdf''"
  "lower (path_suffix ''data/raw/readme.txt'') = ''.txt''"
  "path_str ''data/raw/one.pdf'' = ''data/raw/one.pdf''"
  "path_str ''data/raw/two.pdf'' = ''data/raw/two.pdf''"
  by (simp_all add: path_eval)

lemma stage_strings:
  "strip ''loan exposure'' = ''loan exposure''"
  "smtp_recipients (sample_services a b) = [''ops@example.org'']"
  by (simp_all add: strip_def isspace_def smtp_recipients_def sample_services_def)

lemma sample_blank_text:
  "extract_text_for_document_file sample_services_blank_pdf (files (sample_state []))
     (local_path (sample_document 1 ''one.pdf'')) = Inr [CHR '' '', CHR 0x0A]"
  by (simp add: extract_text_for_document_file_def extract_text_from_pdf_def read_file_def
      sample_state_def sample_document_def sample_services_blank_pdf_def sample_services_def
      stage_paths)

text \<open>The theorem of claim C8 on blank pages and on a \<^verbatim>\<open>.txt\<close> file.\<close>

theorem empty_extraction_stores_nothing_witness:
  "process_document_for_text sample_services_blank_pdf (sample_state [])
     (sample_document 1 ''one.pdf'') ''FR'' = (sample_state [], None)
   \<and> process_document_for_text (sample_services True True) (sample_state [])
       (sample_document 3 ''readme.txt'') ''FR'' = (sample_state [], None)"
proof -
  have b: "\<forall>c\<in>set [CHR '' '', CHR 0x0A]. isspace c" by (simp add: isspace_def)
  have u: "lower (path_suffix (local_path (sample_document 3 ''readme.txt'')))
             \<notin> set [''.pdf'', ''.xls'', ''.xlsx'', ''.csv'']"
    by (simp add: sample_document_def stage_paths)
  from empty_extraction_stores_nothing [where S = sample_services_blank_pdf
      and s = "sample_state []" and doc = "sample_document 1 ''one.pdf''" and lang = "''FR''"]
    empty_extraction_stores_nothing [where S = "sample_services True True"
      and s = "sample_state []" and doc = "sample_document 3 ''readme.txt''" and lang = "''FR''"]
    sample_blank_text b u
  show ?thesis by blast
qed

text \<open>
  The theorem of claim C9 with one match (a message goes out), with none, and with a match
  whose keyword row is missing.
\<close>

theorem notification_attempted_iff_witness:
  "length (smtp_attempts (fst (send_email_notification (sample_services True True)
      (sample_state [sample_match]) 1 1))) = 1
   \<and> length (notification_logs (fst (send_email_notification (sample_services True True)
      (sample_state [sample_match]) 1 1))) = 1
   \<and> send_email_notification (sample_services True True) (sample_state []) 1 1
       = (sample_state [], None)
   \<and> fst (send_email_notification (sample_services True True)
        (sample_state [sample_dangling_match]) 1 1) = sample_state [sample_dangling_match]
   \<and> snd (send_email_notification (sample_services True True)
        (sample_state [sample_dangling_match]) 1 1) = Some AttributeError"
proof -
  have r1: "document_keywords_resolve (sample_state [sample_match]) (Suc 0)"
    by (simp add: document_keywords_resolve_def sample_state_def sample_match_def)
  have r2: "\<not> document_keywords_resolve (sample_state [sample_dangling_match]) (Suc 0)"
    by (simp add: document_keywords_resolve_def sample_state_def sample_dangling_match_def)
  have rc: "smtp_recipients (sample_services True True) \<noteq> []" by (simp add: stage_strings)
  have c: "smtp_configured (sample_services True True)"
    unfolding smtp_configured_def using rc by (simp add: truthy_def sample_services_def)
  have d: "document_stored (sample_state ms) (Suc 0)" for ms
    by (simp add: document_stored_def sample_state_def sample_document_def)
  have k1: "keyword_match_count (sample_state [sample_match]) (Suc 0) = Suc 0"
    by (simp add: keyword_match_count_def sample_state_def sample_match_def)
  have k2: "keyword_match_count (sample_state [sample_dangling_match]) (Suc 0) = Suc 0"
    by (simp add: keyword_match_count_def sample_state_def sample_dangling_match_def)
  have k0: "keyword_match_count (sample_state []) (Suc 0) = 0"
    by (simp add: keyword_match_count_def sample_state_def)
  have a0: "smtp_attempts (sample_state ms) = []" "notification_logs (sample_state ms) = []" for ms
    by (simp_all add: sample_state_def)
  from notification_attempted_iff [where S = "sample_services True True"
      and s = "sample_state [sample_match]" and document_id = 1 and min_keywords = 1]
    notification_attempted_iff [where S = "sample_services True True"
      and s = "sample_state []" and document_id = 1 and min_keywords = 1]
    notification_attempted_iff [where S = "sample_services True True"
      and s = "sample_state [sample_dangling_match]" and document_id = 1 and min_keywords = 1]
  show ?thesis by (simp add: c d k1 k2 k0 a0 r1 r2)
qed

lemma keeps_rows_refl: "keeps_rows s s"
  by (simp add: keeps_rows_def)

lemma keeps_rows_trans: "keeps_rows a b \<Longrightarrow> keeps_rows b c \<Longrightarrow> keeps_rows a c"
  by (auto simp: keeps_rows_def)

lemma save_document_text_keeps: "keeps_rows s (fst (save_document_text S s i l b t u))"
  by (simp add: save_document_text_def keeps_rows_def Let_def)

lemma save_keyword_match_keeps: "keeps_rows s (save_keyword_match S s i t k n c)"
  by (simp add: save_keyword_match_def keeps_rows_def Let_def)

lemma log_notification_keeps: "keeps_rows s (log_notification S s i a b c d)"
  by (simp add: log_notification_def keeps_rows_def Let_def)

lemma process_document_for_text_keeps:
  "keeps_rows s (fst (process_document_for_text S s doc lang))"
  by (auto simp: process_document_for_text_def Let_def keeps_rows_refl save_document_text_keeps
      split: sum.splits)

lemma create_translation_keeps:
  "keeps_rows s (fst (create_translation S s row a b))"
proof (cases "translate_text S (full_text row) a b")
  case (Inl e)
  then show ?thesis by (simp add: create_translation_def keeps_rows_refl)
next
  case (Inr tr)
  then show ?thesis
    using save_document_text_keeps [of s S "text_document_id row" b False tr "Some (shorten S tr 400)"]
    by (auto simp: create_translation_def split: prod.splits)
qed

lemma analyse_keyword_keeps: "keeps_rows s (analyse_keyword S row kw s)"
  by (simp add: analyse_keyword_def keeps_rows_refl save_keyword_match_keeps split: prod.splits)

lemma fold_analyse_keeps: "keeps_rows s (fold (analyse_keyword S row) kws s)"
proof (induction kws arbitrary: s)
  case Nil
  then show ?case by (simp add: keeps_rows_refl)
next
  case (Cons kw kws)
  show ?case using keeps_rows_trans [OF analyse_keyword_keeps Cons] by simp
qed

lemma analyse_document_text_keeps: "keeps_rows s (analyse_document_text S s row)"
  by (simp add: analyse_document_text_def keeps_rows_refl fold_analyse_keeps)

lemma translate_and_scan_keeps:
  "keeps_rows s (fst (translate_and_scan S s ots a b))"
proof (induction ots arbitrary: s)
  case Nil
  then show ?case by (simp add: keeps_rows_refl)
next
  case (Cons ot ots)
  obtain s1 r where c: "create_translation S s ot a b = (s1, r)"
    by (cases "create_translation S s ot a b")
  have k1: "keeps_rows s s1" using create_translation_keeps [of s S ot a b] c by simp
  show ?case
  proof (cases r)
    case (Inl e)
    then show ?thesis using c k1 by simp
  next
    case (Inr tr)
    let ?s2 = "analyse_document_text S (analyse_document_text S s1 ot) tr"
    have "keeps_rows s1 ?s2"
      using keeps_rows_trans [OF analyse_document_text_keeps analyse_document_text_keeps] .
    with k1 have "keeps_rows s ?s2" by (rule keeps_rows_trans)
    then show ?thesis using c Inr keeps_rows_trans [OF _ Cons [of ?s2]] by simp
  qed
qed

lemma send_email_notification_keeps:
  "keeps_rows s (fst (send_email_notification S s i k))"
proof -
  have a: "keeps_rows s (s\<lparr>smtp_attempts := smtp_attempts s @ [m]\<rparr>)" for m
    by (simp add: keeps_rows_def)
  have "keeps_rows s (log_notification S (s\<lparr>smtp_attempts := smtp_attempts s @ [m]\<rparr>) i x y z w)"
    for m x y z w
    using keeps_rows_trans [OF a log_notification_keeps] .
  then show ?thesis
    by (simp add: send_email_notification_def Let_def keeps_rows_refl
        split: option.splits sum.splits)
qed

lemma process_document_keeps:
  "keeps_rows s (fst (process_document S s doc a b))"
proof (cases "find (\<lambda>d. doc_id d = doc_id doc) (documents s)")
  case None
  then show ?thesis by (simp add: process_document_def keeps_rows_refl)
next
  case (Some document)
  obtain s1 r1 where p: "process_document_for_text S s document a = (s1, r1)"
    by (cases "process_document_for_text S s document a")
  have k1: "keeps_rows s s1" using process_document_for_text_keeps [of s S document a] p by simp
  show ?thesis
  proof (cases r1)
    case (Some e)
    then show ?thesis using \<open>find _ _ = Some document\<close> p k1 by (simp add: process_document_def)
  next
    case None
    obtain s2 r2 where t: "translate_and_scan S s1 (original_texts s1 (doc_id document)) a b = (s2, r2)"
      by (cases "translate_and_scan S s1 (original_texts s1 (doc_id document)) a b")
    have "keeps_rows s1 s2"
      using translate_and_scan_keeps [of s1 S "original_texts s1 (doc_id document)" a b] t by simp
    with k1 have k2: "keeps_rows s s2" by (rule keeps_rows_trans)
    show ?thesis
    proof (cases r2)
      case (Some e)
      then show ?thesis using \<open>find _ _ = Some document\<close> p None t k2
        by (simp add: process_document_def)
    next
      case None
      have "keeps_rows s (fst (send_email_notification S s2 (doc_id document) 1))"
        using keeps_rows_trans [OF k2 send_email_notification_keeps] .
      then show ?thesis using \<open>find _ _ = Some document\<close> p \<open>r1 = None\<close> t None
        by (simp add: process_document_def)
    qed
  qed
qed

lemma process_documents_keeps:
  "keeps_rows s (fst (process_documents S s docs a b))"
proof (induction docs arbitrary: s)
  case Nil
  then show ?case by (simp add: keeps_rows_refl)
next
  case (Cons doc docs)
  obtain s1 r where p: "process_document S s doc a b = (s1, r)"
    by (cases "process_document S s doc a b")
  have k: "keeps_rows s s1" using process_document_keeps [of s S doc a b] p by simp
  show ?case
  proof (cases r)
    case (Some e)
    then show ?thesis using p k by simp
  next
    case None
    then show ?thesis using p keeps_rows_trans [OF k Cons [of s1]] by simp
  qed
qed

lemma process_documents_append:
  "process_documents S s (xs @ ys) a b =
     (case process_documents S s xs a b of
        (s1, Some e) \<Rightarrow> (s1, Some e)
      | (s1, None) \<Rightarrow> process_documents S s1 ys a b)"
proof (induction xs arbitrary: s)
  case Nil
  then show ?case by simp
next
  case (Cons x xs)
  obtain s1 r where p: "process_document S s x a b = (s1, r)"
    by (cases "process_document S s x a b")
  then show ?case using Cons [of s1] by (cases r) simp_all
qed

lemma translate_and_scan_append:
  "translate_and_scan S s (xs @ ys) a b =
     (case translate_and_scan S s xs a b of
        (s1, Some e) \<Rightarrow> (s1, Some e)
      | (s1, None) \<Rightarrow> translate_and_scan S s1 ys a b)"
proof (induction xs arbitrary: s)
  case Nil
  then show ?case by simp
next
  case (Cons x xs)
  obtain s1 r where c: "create_translation S s x a b = (s1, r)"
    by (cases "create_translation S s x a b")
  show ?case
  proof (cases r)
    case (Inl e)
    then show ?thesis using c by simp
  next
    case (Inr tr)
    then show ?thesis
      using c Cons [of "analyse_document_text S (analyse_document_text S s1 x) tr"] by simp
  qed
qed

lemma failed_document_ends_batch:
  assumes "process_documents S s pre a b = (s1, None)"
    and "process_document S s1 doc a b = (s2, Some e)"
  shows "process_documents S s (pre @ doc # post) a b = (s2, Some e)"
  using assms by (simp add: process_documents_append)

lemma translation_failure_in_document:
  assumes stored: "find (\<lambda>d. doc_id d = doc_id doc) (documents s1) = Some document"
    and extracted: "process_document_for_text S s1 document a = (s2, None)"
    and texts: "original_texts s2 (doc_id document) = ots1 @ ot # ots2"
    and scanned: "translate_and_scan S s2 ots1 a b = (s3, None)"
    and fails: "translate_text S (full_text ot) a b = Inl e"
  shows "process_document S s1 doc a b = (s3, Some e)"
proof -
  have c: "create_translation S s3 ot a b = (s3, Inl e)"
    by (simp add: create_translation_def fails)
  have "translate_and_scan S s2 (ots1 @ ot # ots2) a b = (s3, Some e)"
    by (simp add: translate_and_scan_append scanned c)
  then show ?thesis by (simp add: process_document_def stored extracted texts)
qed

text \<open>
  Claim C6, as the code has it. When a stage raises for a document (the earlier documents
  of the batch having completed), nothing persisted before is rolled back and the batch
  ends: the run returns that exception in the state the failing document had reached,
  which keeps every row and file present before, and the documents after it run none of
  their stages. In particular, when the translation call raises for any original text of
  the document, after the texts before it were translated and scanned, the final state is
  the one reached just before that call: it keeps the extracted text, the translations and
  the keyword matches committed so far, and the rows of the earlier documents.
\<close>

theorem translation_failure_aborts_batch:
  fixes S :: services and s s1 :: state and doc :: document
  assumes earlier: "process_documents S s pre original_language target_language = (s1, None)"
  shows "(\<forall>s2 e. process_document S s1 doc original_language target_language = (s2, Some e)
           \<longrightarrow> process_documents S s (pre @ doc # post) original_language target_language
                 = (s2, Some e)
               \<and> keeps_rows s s1 \<and> keeps_rows s1 s2 \<and> keeps_rows s s2)
       \<and> (\<forall>document s2 ots1 ot ots2 s3 e.
             find (\<lambda>d. doc_id d = doc_id doc) (documents s1) = Some document
             \<and> process_document_for_text S s1 document original_language = (s2, None)
             \<and> original_texts s2 (doc_id document) = ots1 @ ot # ots2
             \<and> translate_and_scan S s2 ots1 original_language target_language = (s3, None)
             \<and> translate_text S (full_text ot) original_language target_language = Inl e
           \<longrightarrow> process_documents S s (pre @ doc # post) original_language target_language
                 = (s3, Some e)
               \<and> keeps_rows s s1 \<and> keeps_rows s1 s2 \<and> keeps_rows s2 s3
               \<and> ot \<in> set (texts_of s3 (doc_id document)))"
proof (intro conjI allI impI)
  have k1: "keeps_rows s s1"
    using process_documents_keeps [of s S pre original_language target_language] earlier by simp
  {
    fix s2 e
    assume f: "process_document S s1 doc original_language target_language = (s2, Some e)"
    show "process_documents S s (pre @ doc # post) original_language target_language
            = (s2, Some e)"
      using earlier f by (rule failed_document_ends_batch)
    show "keeps_rows s s1" by (rule k1)
    show k2: "keeps_rows s1 s2"
      using process_document_keeps [of s1 S doc original_language target_language] f by simp
    show "keeps_rows s s2" using k1 k2 by (rule keeps_rows_trans)
  }
  fix document s2 ots1 ot ots2 s3 e
  assume h: "find (\<lambda>d. doc_id d = doc_id doc) (documents s1) = Some document
             \<and> process_document_for_text S s1 document original_language = (s2, None)
             \<and> original_texts s2 (doc_id document) = ots1 @ ot # ots2
             \<and> translate_and_scan S s2 ots1 original_language target_language = (s3, None)
             \<and> translate_text S (full_text ot) original_language target_language = Inl e"
  then have stored: "find (\<lambda>d. doc_id d = doc_id doc) (documents s1) = Some document"
    and extracted: "process_document_for_text S s1 document original_language = (s2, None)"
    and texts: "original_texts s2 (doc_id document) = ots1 @ ot # ots2"
    and scanned: "translate_and_scan S s2 ots1 original_language target_language = (s3, None)"
    and fails: "translate_text S (full_text ot) original_language target_language = Inl e"
    by simp_all
  have d: "process_document S s1 doc original_language target_language = (s3, Some e)"
    using stored extracted texts scanned fails by (rule translation_failure_in_document)
  show "process_documents S s (pre @ doc # post) original_language target_language
          = (s3, Some e)"
    using earlier d by (rule failed_document_ends_batch)
  show "keeps_rows s s1" by (rule k1)
  show "keeps_rows s1 s2"
    using process_document_for_text_keeps [of s1 S document original_language] extracted by simp
  show k3: "keeps_rows s2 s3"
    using translate_and_scan_keeps [of s2 S ots1 original_language target_language] scanned
    by simp
  have "ot \<in> set (original_texts s2 (doc_id document))" using texts by simp
  then have "ot \<in> set (texts_of s2 (doc_id document))"
    by (simp add: original_texts_def texts_of_def)
  moreover from k3 obtain new where "document_texts s3 = document_texts s2 @ new"
    by (auto simp: keeps_rows_def)
  ultimately show "ot \<in> set (texts_of s3 (doc_id document))" by (simp add: texts_of_def)
qed

lemma sample_extraction:
  "process_document_for_text (sample_services False True) (sample_state [])
     (sample_document (Suc 0) ''one.pdf'') ''FR'' = (sample_state_after_extraction (Suc 0), None)"
  "process_document_for_text (sample_services False True) (sample_state [])
     (sample_document 2 ''two.pdf'') ''FR'' = (sample_state_after_extraction 2, None)"
  by (simp_all add: process_document_for_text_def extract_text_for_document_file_def
      extract_text_from_pdf_def read_file_def save_document_text_def fresh_rowid_def
      sample_state_def sample_document_def sample_services_def sample_text_def
      sample_state_after_extraction_def stage_paths stage_strings Let_def)

lemma sample_original_texts:
  "original_texts (sample_state_after_extraction i) (doc_id (sample_document i n)) = [sample_text i]"
  by (simp add: original_texts_def sample_state_after_extraction_def sample_text_def
      sample_document_def)

lemma sample_translation_fails:
  "translate_text (sample_services False True) (full_text (sample_text i)) ''FR'' ''EN''
     = Inl TranslationError"
  by (simp add: translate_text_def sample_services_def)

lemma sample_lookup:
  "find (\<lambda>d. doc_id d = doc_id (sample_document (Suc 0) ''one.pdf'')) (documents (sample_state []))
     = Some (sample_document (Suc 0) ''one.pdf'')"
  "find (\<lambda>d. doc_id d = doc_id (sample_document 2 ''two.pdf'')) (documents (sample_state []))
     = Some (sample_document 2 ''two.pdf'')"
  by (simp_all add: sample_state_def sample_document_def)

lemma sample_document_fails:
  "process_document (sample_services False True) (sample_state [])
     (sample_document (Suc 0) ''one.pdf'') ''FR'' ''EN''
     = (sample_state_after_extraction (Suc 0), Some TranslationError)"
  "process_document (sample_services False True) (sample_state [])
     (sample_document 2 ''two.pdf'') ''FR'' ''EN''
     = (sample_state_after_extraction 2, Some TranslationError)"
  by (simp_all add: process_document_def sample_lookup sample_extraction sample_original_texts
      create_translation_def sample_translation_fails
      del: One_nat_def)

lemma rerun_strings:
  "strip ''loan translated'' = ''loan translated''"
  "strip ''old exposure!'' = ''old exposure!''"
  by (simp_all add: strip_def isspace_def)

lemma rerun_translations:
  "translate_text sample_services_flaky ''loan exposure'' ''FR'' ''EN'' = Inr ''loan translated''"
  "translate_text sample_services_flaky ''old exposure!'' ''FR'' ''EN'' = Inl TranslationError"
  by (simp_all add: translate_text_def sample_services_flaky_def sample_services_def
      rerun_strings)

lemma rerun_occurrences:
  "find_keyword_occurrences sample_services_flaky ''loan exposure'' ''loan''
     = (Suc 0, Some ''loan exposure'')"
  "find_keyword_occurrences sample_services_flaky ''loan translated'' ''loan''
     = (Suc 0, Some ''loan translated'')"
  by (simp_all add: find_keyword_occurrences_def sample_services_flaky_def sample_services_def)

lemma rerun_text_file:
  "process_documents sample_services_flaky sample_rerun_state
     [sample_document 3 ''readme.txt''] ''FR'' ''EN'' = (sample_rerun_state, None)"
proof -
  have e: "process_document_for_text sample_services_flaky sample_rerun_state
             (sample_document 3 ''readme.txt'') ''FR'' = (sample_rerun_state, None)"
    by (simp add: process_document_for_text_def extract_text_for_document_file_def
        sample_document_def stage_paths strip_def)
  have o: "original_texts sample_rerun_state 3 = []"
    by (simp add: original_texts_def sample_rerun_state_def sample_old_text_def)
  have n: "send_email_notification sample_services_flaky sample_rerun_state 3 1
             = (sample_rerun_state, None)"
    by (simp add: send_email_notification_def smtp_configured_def truthy_def
        sample_services_flaky_def sample_services_def)
  have f: "find (\<lambda>d. doc_id d = 3) (documents sample_rerun_state)
             = Some (sample_document 3 ''readme.txt'')"
    by (simp add: sample_rerun_state_def sample_document_def)
  have i: "doc_id (sample_document 3 ''readme.txt'') = 3" by (simp add: sample_document_def)
  show ?thesis by (simp add: process_document_def i f e o n)
qed

lemma rerun_lookup:
  "find (\<lambda>d. doc_id d = doc_id (sample_document 2 ''two.pdf'')) (documents sample_rerun_state)
     = Some (sample_document 2 ''two.pdf'')"
  by (simp add: sample_rerun_state_def sample_document_def)

lemma rerun_extraction:
  "process_document_for_text sample_services_flaky sample_rerun_state
     (sample_document 2 ''two.pdf'') ''FR'' = (sample_rerun_extracted, None)"
  by (simp add: process_document_for_text_def extract_text_for_document_file_def
      extract_text_from_pdf_def read_file_def save_document_text_def fresh_rowid_def
      sample_rerun_state_def sample_rerun_extracted_def sample_state_def sample_document_def
      sample_services_flaky_def sample_services_def sample_old_text_def sample_new_text_def
      stage_paths stage_strings Let_def)

lemma rerun_original_texts:
  "original_texts sample_rerun_extracted (doc_id (sample_document 2 ''two.pdf''))
     = [sample_new_text] @ sample_old_text # []"
  by (simp add: original_texts_def sample_rerun_extracted_def sample_rerun_state_def
      sample_old_text_def sample_new_text_def sample_document_def)

lemma rerun_scan:
  "translate_and_scan sample_services_flaky sample_rerun_extracted [sample_new_text] ''FR'' ''EN''
     = (sample_rerun_scanned, None)"
proof -
  have ft: "full_text sample_new_text = ''loan exposure''"
    "full_text sample_translated_text = ''loan translated''"
    by (simp_all add: sample_new_text_def sample_translated_text_def)
  have sh: "shorten sample_services_flaky ''loan translated'' 400 = ''loan translated''"
    by (simp add: sample_services_flaky_def sample_services_def)
  have cl: "clock sample_services_flaky k = 1000 + k" for k
    by (simp add: sample_services_flaky_def sample_services_def)
  have c: "create_translation sample_services_flaky sample_rerun_extracted sample_new_text
             ''FR'' ''EN''
           = (sample_rerun_extracted\<lparr>document_texts :=
                [sample_old_text, sample_new_text, sample_translated_text], ticks := 2\<rparr>,
              Inr sample_translated_text)"
    by (simp add: create_translation_def ft rerun_translations sh cl save_document_text_def
        fresh_rowid_def Let_def sample_rerun_extracted_def sample_rerun_state_def
        sample_old_text_def sample_new_text_def sample_translated_text_def)
  let ?s' = "sample_rerun_extracted\<lparr>document_texts :=
                [sample_old_text, sample_new_text, sample_translated_text], ticks := 2\<rparr>"
  have t: "translate_and_scan sample_services_flaky sample_rerun_extracted [sample_new_text]
             ''FR'' ''EN''
           = (analyse_document_text sample_services_flaky
                (analyse_document_text sample_services_flaky ?s' sample_new_text)
                sample_translated_text, None)"
    by (simp add: c)
  have a: "analyse_document_text sample_services_flaky
             (analyse_document_text sample_services_flaky ?s' sample_new_text)
             sample_translated_text = sample_rerun_scanned"
    by (simp add: analyse_document_text_def stage_strings rerun_strings cl
        get_active_keywords_def analyse_keyword_def rerun_occurrences save_keyword_match_def
        fresh_rowid_def Let_def sample_rerun_extracted_def sample_rerun_scanned_def
        sample_rerun_state_def sample_state_def sample_new_text_def sample_translated_text_def)
  show ?thesis unfolding t a by (rule refl)
qed

lemma rerun_translation_fails:
  "translate_text sample_services_flaky (full_text sample_old_text) ''FR'' ''EN''
     = Inl TranslationError"
  by (simp add: sample_old_text_def rerun_translations)

text \<open>
  The theorem of claim C6 on the second run: the text file completes, the translation of
  the older text of \<^verbatim>\<open>two.pdf\<close> raises after the new text was translated and scanned, and
  \<^verbatim>\<open>one.pdf\<close> is never processed.
\<close>

theorem translation_failure_aborts_batch_witness:
  "process_documents sample_services_flaky sample_rerun_state
     [sample_document 3 ''readme.txt'', sample_document 2 ''two.pdf'',
      sample_document 1 ''one.pdf''] ''FR'' ''EN''
   = (sample_rerun_scanned, Some TranslationError)
   \<and> keeps_rows sample_rerun_state sample_rerun_extracted
   \<and> keeps_rows sample_rerun_extracted sample_rerun_scanned
   \<and> sample_old_text \<in> set (texts_of sample_rerun_scanned 2)"
proof -
  have i: "doc_id (sample_document 2 ''two.pdf'') = 2" by (simp add: sample_document_def)
  from translation_failure_aborts_batch [OF rerun_text_file,
      where doc = "sample_document 2 ''two.pdf''" and post = "[sample_document 1 ''one.pdf'']"]
  have "\<forall>document s2 ots1 ot ots2 s3 e.
         find (\<lambda>d. doc_id d = doc_id (sample_document 2 ''two.pdf''))
           (documents sample_rerun_state) = Some document
         \<and> process_document_for_text sample_services_flaky sample_rerun_state document ''FR''
             = (s2, None)
         \<and> original_texts s2 (doc_id document) = ots1 @ ot # ots2
         \<and> translate_and_scan sample_services_flaky s2 ots1 ''FR'' ''EN'' = (s3, None)
         \<and> translate_text sample_services_flaky (full_text ot) ''FR'' ''EN'' = Inl e
         \<longrightarrow> process_documents sample_services_flaky sample_rerun_state
               ([sample_document 3 ''readme.txt''] @ sample_document 2 ''two.pdf''
                  # [sample_document 1 ''one.pdf'']) ''FR'' ''EN'' = (s3, Some e)
           \<and> keeps_rows sample_rerun_state sample_rerun_state \<and> keeps_rows sample_rerun_state s2
           \<and> keeps_rows s2 s3 \<and> ot \<in> set (texts_of s3 (doc_id document))"
    by (rule conjunct2)
  then have "process_documents sample_services_flaky sample_rerun_state
               ([sample_document 3 ''readme.txt''] @ sample_document 2 ''two.pdf''
                  # [sample_document 1 ''one.pdf'']) ''FR'' ''EN''
                = (sample_rerun_scanned, Some TranslationError)
           \<and> keeps_rows sample_rerun_state sample_rerun_state
           \<and> keeps_rows sample_rerun_state sample_rerun_extracted
           \<and> keeps_rows sample_rerun_extracted sample_rerun_scanned
           \<and> sample_old_text \<in> set (texts_of sample_rerun_scanned
                 (doc_id (sample_document 2 ''two.pdf'')))"
    using rerun_lookup rerun_extraction rerun_original_texts rerun_scan rerun_translation_fails
    by blast
  then show ?thesis by (simp add: i)
qed

text \<open>
  Claim C6 as stated fails: in a batch of two documents where the translation of the first
  raises, the run ends with that exception and no text row for the second document,
  although the second document on its own gets its text row.
\<close>

theorem stage_failure_isolation_counterexample:
  "snd (process_documents (sample_services False True) (sample_state [])
          [sample_document 1 ''one.pdf'', sample_document 2 ''two.pdf''] ''FR'' ''EN'')
     = Some TranslationError
   \<and> texts_of (fst (process_documents (sample_services False True) (sample_state [])
          [sample_document 1 ''one.pdf'', sample_document 2 ''two.pdf''] ''FR'' ''EN'')) 2 = []
   \<and> texts_of (fst (process_documents (sample_services False True) (sample_state [])
          [sample_document 2 ''two.pdf''] ''FR'' ''EN'')) 2 = [sample_text 2]"
  by (simp add: sample_document_fails texts_of_def sample_state_after_extraction_def
      sample_text_def)

end
